theory Spec2Isabelle
  imports Complex_Main "HOL-Library.Log_Nat" "HOL-Library.Monad_Syntax"
begin

section \<open>Python values\<close>

subsection \<open>Floats\<close>

text \<open>
  A Python \<^verbatim>\<open>float\<close> is an IEEE binary64 number. It is modelled by the rational number it
  denotes; every arithmetic operation computes the exact result and rounds it to the nearest
  number with a 53-bit significand, ties to even (\<open>fl\<close>). The exponent range is not modelled:
  there is no overflow to infinity, no subnormal number, no NaN and no negative zero.
  A literal such as \<^verbatim>\<open>0.3\<close> is \<open>fl (3 / 10)\<close>. Python's \<^verbatim>\<open>int\<close> is \<open>int\<close>.
\<close>

type_synonym pyfloat = rat

definition rne :: "rat \<Rightarrow> int" where
  "rne x = (let f = \<lfloor>x\<rfloor>; d = x - of_int f in
     if d < 1 / 2 then f else if 1 / 2 < d then f + 1 else if even f then f else f + 1)"

definition ilog2 :: "rat \<Rightarrow> int" where
  "ilog2 x = (case quotient_of x of (p, q) \<Rightarrow>
     let k = bitlen p - bitlen q in if 2 powi k \<le> x then k else k - 1)"

definition fl :: "rat \<Rightarrow> pyfloat" where
  "fl x = (if x = 0 then 0 else
     let e = ilog2 \<bar>x\<bar> - 52; m = rne (\<bar>x\<bar> / 2 powi e)
     in (if x < 0 then - 1 else 1) * (of_int m * 2 powi e))"

datatype error = ZeroDivisionError

definition and_then :: "error + 'a \<Rightarrow> ('a \<Rightarrow> error + 'b) \<Rightarrow> error + 'b" where
  "and_then r f = (case r of Inl e \<Rightarrow> Inl e | Inr x \<Rightarrow> f x)"

definition fadd :: "pyfloat \<Rightarrow> pyfloat \<Rightarrow> pyfloat" where
  "fadd x y = fl (x + y)"

definition fsub :: "pyfloat \<Rightarrow> pyfloat \<Rightarrow> pyfloat" where
  "fsub x y = fl (x - y)"

definition fmul :: "pyfloat \<Rightarrow> pyfloat \<Rightarrow> pyfloat" where
  "fmul x y = fl (x * y)"

definition fdiv :: "pyfloat \<Rightarrow> pyfloat \<Rightarrow> error + pyfloat" where
  "fdiv x y = (if y = 0 then Inl ZeroDivisionError else Inr (fl (x / y)))"

definition float_of_int :: "int \<Rightarrow> pyfloat" where
  "float_of_int n = fl (of_int n)"

text \<open>\<^verbatim>\<open>a / b\<close> on two ints: the correctly rounded quotient.\<close>

definition int_truediv :: "int \<Rightarrow> int \<Rightarrow> error + pyfloat" where
  "int_truediv a b = (if b = 0 then Inl ZeroDivisionError else Inr (fl (of_int a / of_int b)))"

text \<open>\<^verbatim>\<open>round(x, 3)\<close>: the decimal with three places nearest to \<open>x\<close>, ties to even, as a float.\<close>

definition py_round3 :: "pyfloat \<Rightarrow> pyfloat" where
  "py_round3 x = fl (of_int (rne (x * 1000)) / 1000)"

text \<open>\<^verbatim>\<open>int(x)\<close> truncates towards zero.\<close>

definition py_int :: "pyfloat \<Rightarrow> int" where
  "py_int x = (if 0 \<le> x then \<lfloor>x\<rfloor> else \<lceil>x\<rceil>)"

subsection \<open>Formatting an int\<close>

fun str_of_nat :: "nat \<Rightarrow> string" where
  "str_of_nat n = (if n < 10 then [''0123456789'' ! n]
     else str_of_nat (n div 10) @ [''0123456789'' ! (n mod 10)])"

declare str_of_nat.simps [simp del]

definition str_of_int :: "int \<Rightarrow> string" where
  "str_of_int i = (if i < 0 then CHR ''-'' # str_of_nat (nat (- i)) else str_of_nat (nat i))"

subsection \<open>Strings\<close>

text \<open>
  A \<^verbatim>\<open>str\<close> is a \<open>string\<close>: a list of characters with the code points 0 to 255
  (ASCII and Latin-1), classified as Python classifies these code points. Text with a
  code point above 255 is outside the model.
  \<open>is_space\<close> is \<^verbatim>\<open>str.isspace\<close> and the regular expression class \<^verbatim>\<open>\s\<close>
  (with the no-break space U+00A0 and the next-line control U+0085),
  \<open>is_word_char\<close> is \<^verbatim>\<open>\w\<close> (the ASCII letters, digits and underscore, and the letters
  and numeric characters of Latin-1), \<open>is_digit\<close> is \<^verbatim>\<open>\d\<close>, \<open>is_lower_az\<close> is the
  range \<^verbatim>\<open>[a-z]\<close>, and \<open>lower_char\<close> is \<^verbatim>\<open>str.lower\<close> on one character (A to Z, and
  U+00C0 to U+00DE without the multiplication sign U+00D7, move up by 32).
\<close>

definition is_space :: "char \<Rightarrow> bool" where
  "is_space c = (c \<in> set [CHR 0x09, CHR 0x0A, CHR 0x0B, CHR 0x0C, CHR 0x0D,
                            CHR 0x1C, CHR 0x1D, CHR 0x1E, CHR 0x1F, CHR 0x20,
                            CHR 0x85, CHR 0xA0])"

definition is_digit :: "char \<Rightarrow> bool" where
  "is_digit c = (c \<in> set ''0123456789'')"

definition is_lower_az :: "char \<Rightarrow> bool" where
  "is_lower_az c = (c \<in> set ''abcdefghijklmnopqrstuvwxyz'')"

definition is_upper_az :: "char \<Rightarrow> bool" where
  "is_upper_az c = (c \<in> set ''ABCDEFGHIJKLMNOPQRSTUVWXYZ'')"

definition is_latin1_word_char :: "char \<Rightarrow> bool" where
  "is_latin1_word_char c =
     (let n = of_char c :: nat in
      n \<in> set [0xAA, 0xB2, 0xB3, 0xB5, 0xB9, 0xBA, 0xBC, 0xBD, 0xBE]
      \<or> (0xC0 \<le> n \<and> n \<noteq> 0xD7 \<and> n \<noteq> 0xF7))"

definition is_word_char :: "char \<Rightarrow> bool" where
  "is_word_char c =
     (is_lower_az c \<or> is_upper_az c \<or> is_digit c \<or> c = CHR ''_'' \<or> is_latin1_word_char c)"

definition is_latin1_upper :: "char \<Rightarrow> bool" where
  "is_latin1_upper c = (let n = of_char c :: nat in 0xC0 \<le> n \<and> n \<le> 0xDE \<and> n \<noteq> 0xD7)"

definition lower_char :: "char \<Rightarrow> char" where
  "lower_char c =
     (if is_upper_az c \<or> is_latin1_upper c then char_of (of_char c + 0x20 :: nat) else c)"

definition lower :: "string \<Rightarrow> string" where
  "lower s = map lower_char s"

definition strip :: "string \<Rightarrow> string" where
  "strip s = rev (dropWhile is_space (rev (dropWhile is_space s)))"

text \<open>\<^verbatim>\<open>s.split()\<close>: the maximal runs of non-whitespace characters.\<close>

fun split_ws_aux :: "string \<Rightarrow> string \<Rightarrow> string list" where
  "split_ws_aux cur [] = (if cur = [] then [] else [rev cur])"
| "split_ws_aux cur (c # cs) =
     (if is_space c then (if cur = [] then split_ws_aux [] cs else rev cur # split_ws_aux [] cs)
      else split_ws_aux (c # cur) cs)"

definition split_ws :: "string \<Rightarrow> string list" where
  "split_ws s = split_ws_aux [] s"

text \<open>\<^verbatim>\<open>sub in s\<close> and \<^verbatim>\<open>s.count(sub)\<close> (occurrences that do not overlap, from the left;
  \<open>skip\<close> counts the characters still covered by the last occurrence). Every \<open>sub\<close> the
  program counts is non-empty.\<close>

fun contains :: "string \<Rightarrow> string \<Rightarrow> bool" where
  "contains sub [] = (sub = [])"
| "contains sub (c # cs) = (take (length sub) (c # cs) = sub \<or> contains sub cs)"

fun count_sub_aux :: "string \<Rightarrow> nat \<Rightarrow> string \<Rightarrow> nat" where
  "count_sub_aux sub skip [] = 0"
| "count_sub_aux sub skip (c # cs) =
     (if 0 < skip then count_sub_aux sub (skip - 1) cs
      else if take (length sub) (c # cs) = sub then 1 + count_sub_aux sub (length sub - 1) cs
      else count_sub_aux sub 0 cs)"

definition count_sub :: "string \<Rightarrow> string \<Rightarrow> nat" where
  "count_sub sub s = count_sub_aux sub 0 s"

text \<open>\<^verbatim>\<open>s.split(sep)\<close> for a non-empty separator.\<close>

fun str_split_aux :: "string \<Rightarrow> nat \<Rightarrow> string \<Rightarrow> string \<Rightarrow> string list" where
  "str_split_aux sep skip cur [] = [rev cur]"
| "str_split_aux sep skip cur (c # cs) =
     (if 0 < skip then str_split_aux sep (skip - 1) cur cs
      else if take (length sep) (c # cs) = sep
        then rev cur # str_split_aux sep (length sep - 1) [] cs
      else str_split_aux sep 0 (c # cur) cs)"

definition str_split :: "string \<Rightarrow> string \<Rightarrow> string list" where
  "str_split sep s = str_split_aux sep 0 [] s"

text \<open>\<^verbatim>\<open>re.split(r'[.!?]+', s)\<close>: the pieces between maximal runs of sentence punctuation;
  a run at either end leaves an empty piece there. \<open>in_run\<close> says that the previous
  character belonged to a run.\<close>

definition is_terminator :: "char \<Rightarrow> bool" where
  "is_terminator c = (c \<in> set ''.!?'')"

fun re_split_aux :: "bool \<Rightarrow> string \<Rightarrow> string \<Rightarrow> string list" where
  "re_split_aux in_run cur [] = [rev cur]"
| "re_split_aux in_run cur (c # cs) =
     (if is_terminator c
      then (if in_run then re_split_aux True cur cs else rev cur # re_split_aux True [] cs)
      else re_split_aux False (c # cur) cs)"

definition re_split_sentences :: "string \<Rightarrow> string list" where
  "re_split_sentences s = re_split_aux False [] s"

text \<open>\<^verbatim>\<open>re.findall(r'\b\w{3,}\b', s)\<close>: the maximal runs of word characters that have at
  least three characters.\<close>

fun word_runs_aux :: "string \<Rightarrow> string \<Rightarrow> string list" where
  "word_runs_aux cur [] = (if cur = [] then [] else [rev cur])"
| "word_runs_aux cur (c # cs) =
     (if is_word_char c then word_runs_aux (c # cur) cs
      else (if cur = [] then word_runs_aux [] cs else rev cur # word_runs_aux [] cs))"

definition findall_words3 :: "string \<Rightarrow> string list" where
  "findall_words3 s = filter (\<lambda>w. 3 \<le> length w) (word_runs_aux [] s)"

text \<open>
  The three list patterns \<^verbatim>\<open>\n\s*\d+[\.\)]\s+\<close>, \<^verbatim>\<open>\n\s*[-*]\s+\<close> (with the bullet
  character U+2022, which is outside the model) and \<^verbatim>\<open>\n\s*[a-z][\.\)]\s+\<close> share their frame: a newline,
  greedy whitespace, a marker, then at least one whitespace character, greedy. A marker never
  starts with whitespace and the character after \<^verbatim>\<open>\d+\<close> is not a digit, so the greedy
  match is the only candidate. A matcher returns the length of the match at the start of
  the string; \<open>count_matches\<close> is \<^verbatim>\<open>len(re.findall(pattern, s))\<close>.
\<close>

definition numbered_marker :: "string \<Rightarrow> nat option" where
  "numbered_marker r =
     (let ds = takeWhile is_digit r in
      if ds = [] then None
      else (case dropWhile is_digit r of
              [] \<Rightarrow> None
            | c # _ \<Rightarrow> if c \<in> set ''.)'' then Some (length ds + 1) else None))"

definition bullet_marker :: "string \<Rightarrow> nat option" where
  "bullet_marker r = (case r of [] \<Rightarrow> None | c # _ \<Rightarrow> if c \<in> set ''-*'' then Some 1 else None)"

definition lettered_marker :: "string \<Rightarrow> nat option" where
  "lettered_marker r =
     (case r of
        c # d # _ \<Rightarrow> if is_lower_az c \<and> d \<in> set ''.)'' then Some 2 else None
      | _ \<Rightarrow> None)"

definition match_list_item :: "(string \<Rightarrow> nat option) \<Rightarrow> string \<Rightarrow> nat option" where
  "match_list_item marker s =
     (case s of
        [] \<Rightarrow> None
      | c # r \<Rightarrow>
          if c \<noteq> CHR 0x0A then None
          else (let ws = takeWhile is_space r in
                case marker (dropWhile is_space r) of
                  None \<Rightarrow> None
                | Some k \<Rightarrow>
                    (let ws2 = takeWhile is_space (drop k (dropWhile is_space r)) in
                     if ws2 = [] then None else Some (1 + length ws + k + length ws2))))"

fun count_matches_aux :: "(string \<Rightarrow> nat option) \<Rightarrow> nat \<Rightarrow> string \<Rightarrow> nat" where
  "count_matches_aux m skip [] = 0"
| "count_matches_aux m skip (c # cs) =
     (if 0 < skip then count_matches_aux m (skip - 1) cs
      else (case m (c # cs) of
              Some n \<Rightarrow> 1 + count_matches_aux m (n - 1) cs
            | None \<Rightarrow> count_matches_aux m 0 cs))"

definition count_matches :: "(string \<Rightarrow> nat option) \<Rightarrow> string \<Rightarrow> nat" where
  "count_matches m s = count_matches_aux m 0 s"

section \<open>services/metrics.py\<close>

text \<open>
  The static methods \<^verbatim>\<open>_coherence_score\<close>, \<^verbatim>\<open>_completeness_score\<close>, ... of
  \<^verbatim>\<open>QualityMetricsCalculator\<close> are \<open>calc_coherence_score\<close>, \<open>calc_completeness_score\<close>, ...;
  the keys of the dictionary \<^verbatim>\<open>calculate_all\<close> returns are the fields of \<open>QualityMetrics\<close>.
  Every division by a quantity the program computes is checked (\<open>fdiv\<close>, \<open>int_truediv\<close>) and
  raises \<^verbatim>\<open>ZeroDivisionError\<close> on zero; a division by a non-zero literal is written
  \<open>fl (x / c)\<close>. \<^verbatim>\<open>x ** 2\<close> on a float is the rounded square. \<^verbatim>\<open>sum\<close> adds from the
  left, starting at \<open>0\<close>, rounding after every addition (CPython up to 3.11; later
  versions compensate the rounding errors of a float sum, which can change the last bits
  of a result).
\<close>

record QualityMetrics =
  coherence_score :: pyfloat
  completeness_score :: pyfloat
  length_appropriateness :: pyfloat
  repetition_penalty :: pyfloat
  structural_richness :: pyfloat
  overall_score :: pyfloat

definition float_sum :: "pyfloat list \<Rightarrow> pyfloat" where
  "float_sum xs = foldl fadd 0 xs"

definition transitions :: "string list" where
  "transitions =
     [''however'', ''therefore'', ''furthermore'', ''moreover'', ''additionally'',
      ''consequently'', ''thus'', ''hence'', ''meanwhile'', ''subsequently'',
      ''nevertheless'', ''nonetheless'', ''accordingly'', ''indeed'', ''specifically'']"

text \<open>\<^verbatim>\<open>[s.strip() for s in re.split(r'[.!?]+', text) if s.strip()]\<close>\<close>

definition stripped_sentences :: "string \<Rightarrow> string list" where
  "stripped_sentences text =
     map strip (filter (\<lambda>s. strip s \<noteq> []) (re_split_sentences text))"

text \<open>\<^verbatim>\<open>s and s[-1] in '.!?'\<close>\<close>

definition proper_ending :: "string \<Rightarrow> bool" where
  "proper_ending s = (s \<noteq> [] \<and> last s \<in> set ''.!?'')"

definition calc_coherence_score :: "string \<Rightarrow> error + pyfloat" where
  "calc_coherence_score text =
     (if text = [] \<or> length (strip text) < 10 then Inr (fl (3 / 10))
      else
        let sentences = stripped_sentences text in
        if length sentences < 2 then Inr (fl (1 / 2))
        else
          let proper_endings = length (filter proper_ending sentences) in
          and_then
            (if sentences \<noteq> []
             then and_then (int_truediv (int proper_endings) (int (length sentences)))
                    (\<lambda>q. Inr (min q 1))
             else Inr 0)
          (\<lambda>punctuation_score.
          let score = fadd 0 (fmul punctuation_score (fl (4 / 10)));
              text_lower = lower text;
              transition_count = length (filter (\<lambda>t. contains t text_lower) transitions) in
          and_then
            (fdiv (float_of_int (int transition_count))
               (max (fmul (float_of_int (int (length sentences))) (fl (3 / 10))) 1))
          (\<lambda>q.
          let transition_score = min q 1;
              score = fadd score (fmul transition_score (fl (3 / 10))) in
          and_then
            (if 1 < length sentences then
               (let lengths = map (\<lambda>s. int (length s)) sentences in
                and_then (int_truediv (sum_list lengths) (int (length lengths)))
                (\<lambda>avg_length.
                and_then
                  (fdiv (float_sum (map (\<lambda>l. let d = fsub (float_of_int l) avg_length
                                               in fmul d d) lengths))
                     (float_of_int (int (length lengths))))
                (\<lambda>variance.
                let variance_score = fsub 1 (min (fl (\<bar>fsub variance 250\<bar> / 250)) 1) in
                Inr (fadd score (fmul variance_score (fl (3 / 10)))))))
             else Inr score)
          (\<lambda>score. Inr (min score 1)))))"

definition question_words :: "string list" where
  "question_words =
     [''what'', ''who'', ''when'', ''where'', ''why'', ''how'', ''which'',
      ''explain'', ''describe'', ''list'']"

definition stop_words :: "string set" where
  "stop_words =
     set [''the'', ''a'', ''an'', ''and'', ''or'', ''but'', ''in'', ''on'', ''at'', ''to'',
          ''for'', ''of'', ''with'', ''by'', ''is'', ''are'', ''was'', ''were'']"

text \<open>\<^verbatim>\<open>set(w.lower() for w in re.findall(r'\b\w{3,}\b', s) if w.lower() not in stop_words)\<close>\<close>

definition keyword_set :: "string \<Rightarrow> string set" where
  "keyword_set s = set (map lower (filter (\<lambda>w. lower w \<notin> stop_words) (findall_words3 s)))"

definition calc_completeness_score :: "string \<Rightarrow> string \<Rightarrow> error + pyfloat" where
  "calc_completeness_score text prompt =
     (if text = [] \<or> prompt = [] then Inr 0
      else
        let prompt_lower = lower prompt;
            found_questions = length (filter (\<lambda>qw. contains qw prompt_lower) question_words) in
        and_then
          (if 0 < found_questions
           then and_then
                  (int_truediv (int (length text)) (max (int (length prompt) * 2) 100))
                  (\<lambda>q. Inr (fadd 0 (fmul (min q 1) (fl (4 / 10)))))
           else Inr 0)
        (\<lambda>score.
        let prompt_words = keyword_set prompt;
            text_words = keyword_set text in
        and_then
          (if prompt_words \<noteq> {}
           then and_then
                  (int_truediv (int (card (prompt_words \<inter> text_words))) (int (card prompt_words)))
                  (\<lambda>overlap. Inr (fadd score (fmul overlap (fl (4 / 10)))))
           else Inr score)
        (\<lambda>score.
        and_then (int_truediv (int (length text)) (max (int (length prompt)) 50))
        (\<lambda>q.
        let length_score = fl (min q 2 / 2);
            score = fadd score (fmul length_score (fl (2 / 10))) in
        Inr (min score 1)))))"

text \<open>The unused \<^verbatim>\<open>prompt_complexity\<close> (a sum of three counts) is left out: it cannot
  raise and nothing reads it.\<close>

definition calc_length_appropriateness ::
    "string \<Rightarrow> string \<Rightarrow> int option \<Rightarrow> error + pyfloat" where
  "calc_length_appropriateness text prompt tokens_used =
     (if text = [] then Inr 0
      else
        let text_length = int (length text);
            prompt_length = int (length prompt);
            ideal_min = fmul (float_of_int prompt_length) (fl (3 / 2));
            ideal_max = prompt_length * 8 in
        and_then
          (if ideal_min \<le> of_int text_length \<and> text_length \<le> ideal_max then Inr 1
           else if of_int text_length < ideal_min
             then fdiv (float_of_int text_length) ideal_min
           else (let excess = text_length - ideal_max in
                 and_then (int_truediv excess ideal_max)
                   (\<lambda>q. Inr (max (fl (1 / 2)) (fsub 1 (fmul q (fl (1 / 2))))))))
        (\<lambda>score.
        and_then
          (case tokens_used of
             None \<Rightarrow> Inr score
           | Some tokens \<Rightarrow>
               if tokens = 0 then Inr score
               else and_then
                      (if 0 < tokens then int_truediv text_length tokens else Inr 4)
                      (\<lambda>chars_per_token.
                         Inr (if chars_per_token < 2 then fmul score (fl (8 / 10)) else score)))
        (\<lambda>score. Inr (min score 1))))"

text \<open>\<^verbatim>\<open>[tuple(words[i:i+n]) for i in range(len(words) - n + 1)]\<close> with \<^verbatim>\<open>n = 3\<close>\<close>

definition ngrams3 :: "string list \<Rightarrow> string list list" where
  "ngrams3 words =
     map (\<lambda>i. take 3 (drop i words)) [0 ..< nat (int (length words) - 3 + 1)]"

text \<open>\<^verbatim>\<open>[s.strip().lower() for s in re.split(r'[.!?]+', text) if len(s.strip()) > 10]\<close>\<close>

definition long_sentences :: "string \<Rightarrow> string list" where
  "long_sentences text =
     map (\<lambda>s. lower (strip s)) (filter (\<lambda>s. 10 < length (strip s)) (re_split_sentences text))"

definition calc_repetition_penalty :: "string \<Rightarrow> error + pyfloat" where
  "calc_repetition_penalty text =
     (if text = [] \<or> length text < 20 then Inr (fl (7 / 10))
      else
        let words = split_ws (lower text) in
        if length words < 5 then Inr (fl (8 / 10))
        else
          let ngrams = ngrams3 words in
          if ngrams = [] then Inr (fl (8 / 10))
          else
            let unique_ngrams = card (set ngrams) in
            and_then (int_truediv (int unique_ngrams) (int (length ngrams)))
            (\<lambda>q.
            let repetition_ratio = fsub 1 q;
                sentences = long_sentences text in
            and_then
              (if 1 < length sentences then
                 (let unique_sentences = card (set sentences) in
                  and_then (int_truediv (int unique_sentences) (int (length sentences)))
                  (\<lambda>q2.
                  let sentence_repetition = fsub 1 q2 in
                  Inr (max repetition_ratio (fmul sentence_repetition (fl (7 / 10))))))
               else Inr repetition_ratio)
            (\<lambda>repetition_ratio.
            let score = fsub 1 (min repetition_ratio (fl (8 / 10))) in
            Inr (max score (fl (2 / 10))))))"

definition formatting_markers :: "string list" where
  "formatting_markers = [''**'', ''*'', ''_'', ''`'', ''#'']"

text \<open>\<^verbatim>\<open>[s.split()[0].lower() if s.split() else '' for s in sentences[:10]]\<close>\<close>

definition starters_of :: "string list \<Rightarrow> string list" where
  "starters_of sentences =
     map (\<lambda>s. case split_ws s of [] \<Rightarrow> [] | w # _ \<Rightarrow> lower w) (take 10 sentences)"

definition calc_structural_richness :: "string \<Rightarrow> error + pyfloat" where
  "calc_structural_richness text =
     (if text = [] then Inr 0
      else
        let paragraphs = str_split [CHR 0x0A, CHR 0x0A] text;
            score =
              (if 1 < length paragraphs
               then (let paragraph_score = min (fl (float_of_int (int (length paragraphs)) / 5)) 1
                     in fadd 0 (fmul paragraph_score (fl (3 / 10))))
               else fadd 0 (fl (1 / 10)));
            list_count =
              count_matches (match_list_item numbered_marker) text +
              count_matches (match_list_item bullet_marker) text +
              count_matches (match_list_item lettered_marker) text;
            score =
              (if 0 < list_count
               then (let list_score = min (fl (float_of_int (int list_count) / 3)) 1
                     in fadd score (fmul list_score (fl (3 / 10))))
               else score);
            formatting_count = sum_list (map (\<lambda>marker. count_sub marker text) formatting_markers);
            formatting_score = min (fl (float_of_int (int formatting_count) / 5)) 1;
            score = fadd score (fmul formatting_score (fl (2 / 10)));
            sentences = stripped_sentences text in
        and_then
          (if 1 < length sentences then
             (let starters = starters_of sentences;
                  unique_starters = card (set starters) in
              and_then (int_truediv (int unique_starters) (max (int (length sentences)) 5))
              (\<lambda>q.
              let variety_score = min q 1 in
              Inr (fadd score (fmul variety_score (fl (2 / 10))))))
           else Inr score)
        (\<lambda>score. Inr (min score 1)))"

text \<open>The weighted sum \<^verbatim>\<open>sum(metrics[key] * weights[key] for key in weights)\<close>, in the
  order of the keys of \<^verbatim>\<open>weights\<close>.\<close>

definition weighted_sum ::
    "pyfloat \<Rightarrow> pyfloat \<Rightarrow> pyfloat \<Rightarrow> pyfloat \<Rightarrow> pyfloat \<Rightarrow> pyfloat" where
  "weighted_sum coherence completeness length_appr repetition structural =
     float_sum [fmul coherence (fl (25 / 100)), fmul completeness (fl (30 / 100)),
                fmul length_appr (fl (15 / 100)), fmul repetition (fl (15 / 100)),
                fmul structural (fl (15 / 100))]"

definition calculate_all :: "string \<Rightarrow> string \<Rightarrow> int option \<Rightarrow> error + QualityMetrics" where
  "calculate_all response_text prompt tokens_used =
     and_then (calc_coherence_score response_text) (\<lambda>coherence.
     and_then (calc_completeness_score response_text prompt) (\<lambda>completeness.
     and_then (calc_length_appropriateness response_text prompt tokens_used) (\<lambda>length_appr.
     and_then (calc_repetition_penalty response_text) (\<lambda>repetition.
     and_then (calc_structural_richness response_text) (\<lambda>structural.
     Inr \<lparr>coherence_score = coherence,
          completeness_score = completeness,
          length_appropriateness = length_appr,
          repetition_penalty = repetition,
          structural_richness = structural,
          overall_score =
            weighted_sum coherence completeness length_appr repetition structural\<rparr>)))))"


section \<open>schemas.py\<close>

text \<open>
  \<^verbatim>\<open>ParameterRange\<close> has two required floats with \<^verbatim>\<open>ge=0\<close>, an optional step and an optional
  list of values. The record holds the fields as submitted; \<open>ParameterRange_errors\<close> is the
  validation pydantic runs when the object is built: the bound \<^verbatim>\<open>ge=0\<close> on \<^verbatim>\<open>min\<close> and on
  \<^verbatim>\<open>max\<close>, then the validator \<^verbatim>\<open>max_greater_than_min\<close>, which runs when \<^verbatim>\<open>max\<close> passed its
  bound and compares with \<^verbatim>\<open>min\<close> when \<^verbatim>\<open>min\<close> was accepted. Nothing validates \<^verbatim>\<open>step\<close>.
\<close>

record ParameterRange =
  range_min :: pyfloat
  range_max :: pyfloat
  range_step :: "pyfloat option"
  range_values :: "pyfloat list option"

definition ParameterRange_errors :: "ParameterRange \<Rightarrow> string list" where
  "ParameterRange_errors r =
     (if range_min r < 0 then [''min: Input should be greater than or equal to 0''] else []) @
     (if range_max r < 0 then [''max: Input should be greater than or equal to 0'']
      else if 0 \<le> range_min r \<and> range_max r < range_min r
        then [''max: Value error, max must be greater than or equal to min'']
      else [])"

record ExperimentRequest =
  req_prompt :: string
  req_name :: "string option"
  req_temperature :: "ParameterRange option"
  req_top_p :: "ParameterRange option"
  req_max_tokens :: "ParameterRange option"
  req_presence_penalty :: "ParameterRange option"
  req_frequency_penalty :: "ParameterRange option"
  req_model :: string

definition slot_errors :: "ParameterRange option \<Rightarrow> string list" where
  "slot_errors slot = (case slot of None \<Rightarrow> [] | Some r \<Rightarrow> ParameterRange_errors r)"

definition ExperimentRequest_errors :: "ExperimentRequest \<Rightarrow> string list" where
  "ExperimentRequest_errors request =
     (if length (req_prompt request) < 1 then [''prompt: String should have at least 1 character''] else []) @
     (case req_name request of None \<Rightarrow> []
      | Some n \<Rightarrow> if 255 < length n then [''name: String should have at most 255 characters''] else []) @
     slot_errors (req_temperature request) @
     slot_errors (req_top_p request) @
     slot_errors (req_max_tokens request) @
     slot_errors (req_presence_penalty request) @
     slot_errors (req_frequency_penalty request)"


section \<open>services/experiment.py\<close>

record ParameterCombination =
  temperature :: pyfloat
  top_p :: pyfloat
  max_tokens :: int
  presence_penalty :: pyfloat
  frequency_penalty :: pyfloat

text \<open>
  The \<^verbatim>\<open>while current <= param_range.max\<close> loop of \<^verbatim>\<open>get_values\<close>. It need not end
  (a negative step never passes \<^verbatim>\<open>max\<close>), so not returning is the value \<open>None\<close>.
\<close>

partial_function (option) get_values_loop ::
    "pyfloat \<Rightarrow> pyfloat \<Rightarrow> pyfloat \<Rightarrow> pyfloat list \<Rightarrow> pyfloat list option" where
  "get_values_loop current rmax stp vals =
     (if current \<le> rmax
      then get_values_loop (fadd current stp) rmax stp (vals @ [py_round3 current])
      else Some vals)"

declare get_values_loop.simps [code]

text \<open>Truth value of an optional list (\<^verbatim>\<open>if param_range.values\<close>) and of an optional float
  (\<^verbatim>\<open>if param_range.step\<close>): \<^verbatim>\<open>None\<close>, the empty list and zero are false.\<close>

definition truthy_list :: "'a list option \<Rightarrow> bool" where
  "truthy_list v = (case v of None \<Rightarrow> False | Some xs \<Rightarrow> xs \<noteq> [])"

definition truthy_float :: "pyfloat option \<Rightarrow> bool" where
  "truthy_float v = (case v of None \<Rightarrow> False | Some x \<Rightarrow> x \<noteq> 0)"

definition get_values :: "ParameterRange option \<Rightarrow> pyfloat \<Rightarrow> pyfloat list option" where
  "get_values param_range dflt =
     (case param_range of
        None \<Rightarrow> Some [dflt]
      | Some r \<Rightarrow>
          if truthy_list (range_values r) then range_values r
          else if truthy_float (range_step r) then
            (case get_values_loop (range_min r) (range_max r) (the (range_step r)) [] of
               None \<Rightarrow> None
             | Some vals \<Rightarrow> Some (if vals \<noteq> [] then vals else [dflt]))
          else Some (if range_min r \<noteq> range_max r then [range_min r, range_max r]
                     else [range_min r]))"

definition generate_parameter_combinations ::
    "ExperimentRequest \<Rightarrow> ParameterCombination list option" where
  "generate_parameter_combinations request =
     do {
       temperatures \<leftarrow> get_values (req_temperature request) (fl (7 / 10));
       top_ps \<leftarrow> get_values (req_top_p request) 1;
       max_tokens_list \<leftarrow> map_option (map py_int) (get_values (req_max_tokens request) 1000);
       presence_penalties \<leftarrow> get_values (req_presence_penalty request) 0;
       frequency_penalties \<leftarrow> get_values (req_frequency_penalty request) 0;
       Some [\<lparr>temperature = t, top_p = p, max_tokens = m,
              presence_penalty = pp, frequency_penalty = fp\<rparr>.
             t \<leftarrow> temperatures, p \<leftarrow> top_ps, m \<leftarrow> max_tokens_list,
             pp \<leftarrow> presence_penalties, fp \<leftarrow> frequency_penalties]
     }"

definition count_values :: "ParameterRange option \<Rightarrow> pyfloat \<Rightarrow> error + int" where
  "count_values param_range dflt =
     (case param_range of
        None \<Rightarrow> Inr 1
      | Some r \<Rightarrow>
          if truthy_list (range_values r) then Inr (int (length (the (range_values r))))
          else if truthy_float (range_step r) then
            and_then (fdiv (fsub (range_max r) (range_min r)) (the (range_step r)))
              (\<lambda>q. Inr (max (py_int q + 1) 1))
          else Inr (if range_min r \<noteq> range_max r then 2 else 1))"

definition total_combinations :: "ExperimentRequest \<Rightarrow> error + int" where
  "total_combinations request =
     and_then (count_values (req_temperature request) (fl (7 / 10))) (\<lambda>c1.
     and_then (count_values (req_top_p request) 1) (\<lambda>c2.
     and_then (count_values (req_max_tokens request) 1000) (\<lambda>c3.
     and_then (count_values (req_presence_penalty request) 0) (\<lambda>c4.
     and_then (count_values (req_frequency_penalty request) 0) (\<lambda>c5.
     Inr (c1 * c2 * c3 * c4 * c5))))))"

definition MAX_COMBINATIONS :: int where
  "MAX_COMBINATIONS = 50"

definition too_many_message :: "int \<Rightarrow> string" where
  "too_many_message n =
     ''Too many parameter combinations ('' @ str_of_int n @ ''). Maximum allowed is '' @
     str_of_int MAX_COMBINATIONS @ ''. Please reduce the ranges or step sizes.''"

definition validate_parameter_ranges :: "ExperimentRequest \<Rightarrow> error + bool \<times> string option" where
  "validate_parameter_ranges request =
     and_then (total_combinations request) (\<lambda>n.
       if n > MAX_COMBINATIONS then Inr (False, Some (too_many_message n))
       else Inr (True, None))"

text \<open>Whether the count of a slot is the number of values it enumerates.\<close>

definition count_agrees :: "ParameterRange option \<Rightarrow> pyfloat \<Rightarrow> bool" where
  "count_agrees slot dflt =
     (case get_values slot dflt of
        None \<Rightarrow> False
      | Some vals \<Rightarrow> count_values slot dflt = Inr (int (length vals)))"

section \<open>services/llm_service.py\<close>

text \<open>
  The model provider is outside the repository. \<open>llm i model prompt combo\<close> is what the
  provider answers to the call of task \<open>i\<close>: an exception, or the content of the reply and
  the total token count of the callback. \<open>Exception msg\<close> is an exception \<open>e\<close> with
  \<^verbatim>\<open>str(e) = msg\<close>.
\<close>

datatype exn = Exception string

type_synonym llm = "nat \<Rightarrow> string \<Rightarrow> string \<Rightarrow> ParameterCombination \<Rightarrow> exn + string \<times> int"

definition LLMService_init :: "string option \<Rightarrow> exn + string" where
  "LLMService_init api_key =
     (case api_key of
        None \<Rightarrow> Inl (Exception ''OPENAI_API_KEY not found in environment variables'')
      | Some k \<Rightarrow>
          if k = [] then Inl (Exception ''OPENAI_API_KEY not found in environment variables'')
          else Inr k)"

definition generate_response ::
    "llm \<Rightarrow> nat \<Rightarrow> string \<Rightarrow> pyfloat \<Rightarrow> pyfloat \<Rightarrow> int \<Rightarrow> pyfloat \<Rightarrow> pyfloat \<Rightarrow> string
      \<Rightarrow> exn + string \<times> int option" where
  "generate_response llm i prompt temperature_v top_p_v max_tokens_v presence_penalty_v
       frequency_penalty_v model =
     (case llm i model prompt
             \<lparr>temperature = temperature_v, top_p = top_p_v, max_tokens = max_tokens_v,
              presence_penalty = presence_penalty_v, frequency_penalty = frequency_penalty_v\<rparr> of
        Inl e \<Rightarrow> Inl e
      | Inr (content, total_tokens) \<Rightarrow>
          Inr (content, if total_tokens \<noteq> 0 then Some total_tokens else None))"

text \<open>The dictionaries \<^verbatim>\<open>generate_batch\<close> returns: the key \<^verbatim>\<open>text\<close> (\<open>result_text\<close>), the key
  \<^verbatim>\<open>tokens_used\<close> and the five keys of the combination.\<close>

record LLMResult = ParameterCombination +
  result_text :: string
  tokens_used :: "int option"

definition with_parameters :: "ParameterCombination \<Rightarrow> string \<Rightarrow> int option \<Rightarrow> LLMResult" where
  "with_parameters combo t tok =
     \<lparr>temperature = temperature combo, top_p = top_p combo, max_tokens = max_tokens combo,
      presence_penalty = presence_penalty combo, frequency_penalty = frequency_penalty combo,
      result_text = t, tokens_used = tok\<rparr>"

text \<open>
  \<^verbatim>\<open>asyncio.gather(*tasks, return_exceptions=True)\<close> runs the tasks concurrently and returns
  their outcomes in the order of \<open>tasks\<close>. \<open>order\<close> is the order in which the tasks
  complete; each completion fills the slot of its task. The call returns once every slot is
  filled, so a schedule that leaves a task out never returns (\<open>None\<close>).
\<close>

definition gather :: "'a list \<Rightarrow> nat list \<Rightarrow> 'a list option" where
  "gather tasks order =
     those (fold (\<lambda>i slots. if i < length slots then slots[i := Some (tasks ! i)] else slots)
              order (replicate (length tasks) None))"

text \<open>
  \<open>batch_task\<close> is the task \<^verbatim>\<open>generate_batch\<close> creates for the combination at index \<open>i\<close>,
  \<open>batch_entry\<close> the body of its loop over the completed tasks. \<open>generate_batch\<close>
  returns the list of results and, as the record of its effect on the provider, the
  combinations a generation call was issued for.
\<close>

definition batch_task ::
    "llm \<Rightarrow> string \<Rightarrow> string \<Rightarrow> nat \<Rightarrow> ParameterCombination \<Rightarrow> exn + string \<times> int option" where
  "batch_task llm prompt model i combo =
     generate_response llm i prompt (temperature combo) (top_p combo) (max_tokens combo)
       (presence_penalty combo) (frequency_penalty combo) model"

definition batch_entry :: "ParameterCombination \<Rightarrow> exn + string \<times> int option \<Rightarrow> LLMResult" where
  "batch_entry combo result =
     (case result of
        Inl (Exception msg) \<Rightarrow> with_parameters combo (''Error: '' @ msg) None
      | Inr (content, tok) \<Rightarrow> with_parameters combo content tok)"

definition generate_batch ::
    "llm \<Rightarrow> nat list \<Rightarrow> string \<Rightarrow> ParameterCombination list \<Rightarrow> string
      \<Rightarrow> LLMResult list option \<times> ParameterCombination list" where
  "generate_batch llm order prompt parameter_combinations model =
     (let tasks = map (\<lambda>(i, combo). batch_task llm prompt model i combo)
                    (enumerate 0 parameter_combinations)
      in (case gather tasks order of
            None \<Rightarrow> None
          | Some completed_tasks \<Rightarrow>
              Some (map (\<lambda>(i, result). batch_entry (parameter_combinations ! i) result)
                      (enumerate 0 completed_tasks)),
          parameter_combinations))"


section \<open>api/experiments.py\<close>

text \<open>
  The rows \<^verbatim>\<open>create_experiment\<close> adds to the database are its result; the experiment row,
  the commit and the conversion of the rows to the reply are left out. FastAPI validates
  the body against \<^verbatim>\<open>ExperimentRequest\<close> before it calls the handler
  (\<open>post_experiments\<close>). An exception the handler does not catch is \<open>Unhandled\<close>. The
  second component of the result is the list of generation calls issued.
\<close>

datatype http_error =
    HTTPException nat string
  | RequestValidationError "string list"
  | Unhandled string

record Response = ParameterCombination +
  response_text :: string
  response_tokens_used :: "int option"
  metrics :: "QualityMetrics option"

definition make_response :: "LLMResult \<Rightarrow> QualityMetrics \<Rightarrow> Response" where
  "make_response llm_result metrics_dict =
     \<lparr>temperature = temperature llm_result, top_p = top_p llm_result,
      max_tokens = max_tokens llm_result, presence_penalty = presence_penalty llm_result,
      frequency_penalty = frequency_penalty llm_result,
      response_text = result_text llm_result, response_tokens_used = tokens_used llm_result,
      metrics = Some metrics_dict\<rparr>"

text \<open>The loop \<^verbatim>\<open>for llm_result in llm_results\<close>.\<close>

fun score_results :: "string \<Rightarrow> LLMResult list \<Rightarrow> error + Response list" where
  "score_results prompt [] = Inr []"
| "score_results prompt (llm_result # rest) =
     and_then (calculate_all (result_text llm_result) prompt (tokens_used llm_result)) (\<lambda>metrics_dict.
     and_then (score_results prompt rest) (\<lambda>rows.
     Inr (make_response llm_result metrics_dict # rows)))"

definition create_experiment ::
    "string option \<Rightarrow> llm \<Rightarrow> nat list \<Rightarrow> ExperimentRequest
      \<Rightarrow> ((http_error + Response list) \<times> ParameterCombination list) option" where
  "create_experiment api_key llm order request =
     (case validate_parameter_ranges request of
        Inl e \<Rightarrow> Some (Inl (Unhandled ''ZeroDivisionError''), [])
      | Inr (is_valid, error_msg) \<Rightarrow>
          if \<not> is_valid
          then Some (Inl (HTTPException 400 (case error_msg of Some m \<Rightarrow> m | None \<Rightarrow> [])), [])
          else
            (case generate_parameter_combinations request of
               None \<Rightarrow> None
             | Some combinations \<Rightarrow>
                 (case LLMService_init api_key of
                    Inl (Exception msg) \<Rightarrow> Some (Inl (Unhandled (''ValueError: '' @ msg)), [])
                  | Inr key \<Rightarrow>
                      (case generate_batch llm order (req_prompt request) combinations
                              (req_model request) of
                         (None, calls) \<Rightarrow> None
                       | (Some llm_results, calls) \<Rightarrow>
                           (case score_results (req_prompt request) llm_results of
                              Inl e \<Rightarrow> Some (Inl (Unhandled ''ZeroDivisionError''), calls)
                            | Inr rows \<Rightarrow> Some (Inr rows, calls))))))"

definition post_experiments ::
    "string option \<Rightarrow> llm \<Rightarrow> nat list \<Rightarrow> ExperimentRequest
      \<Rightarrow> ((http_error + Response list) \<times> ParameterCombination list) option" where
  "post_experiments api_key llm order request =
     (if ExperimentRequest_errors request \<noteq> []
      then Some (Inl (RequestValidationError (ExperimentRequest_errors request)), [])
      else create_experiment api_key llm order request)"

section \<open>Example inputs\<close>

definition stepped :: "pyfloat \<Rightarrow> pyfloat \<Rightarrow> pyfloat \<Rightarrow> ParameterRange" where
  "stepped lo hi st = \<lparr>range_min = lo, range_max = hi, range_step = Some st, range_values = None\<rparr>"

definition listed :: "pyfloat list \<Rightarrow> ParameterRange" where
  "listed vs = \<lparr>range_min = 0, range_max = 0, range_step = None, range_values = Some vs\<rparr>"

definition default_combination :: ParameterCombination where
  "default_combination =
     \<lparr>temperature = fl (7 / 10), top_p = 1, max_tokens = 1000,
      presence_penalty = 0, frequency_penalty = 0\<rparr>"

text \<open>The request of the end-to-end example: temperature from 0 to 1 in steps of 0.5.\<close>

definition photosynthesis_request :: ExperimentRequest where
  "photosynthesis_request =
     \<lparr>req_prompt = ''Explain photosynthesis'', req_name = None,
      req_temperature = Some (stepped 0 1 (1 / 2)), req_top_p = None, req_max_tokens = None,
      req_presence_penalty = None, req_frequency_penalty = None, req_model = ''gpt-3.5-turbo''\<rparr>"

text \<open>Temperature from 0 to 0.7 in steps of 0.1, and seven listed values of \<^verbatim>\<open>top_p\<close>.\<close>

definition request_56 :: ExperimentRequest where
  "request_56 =
     \<lparr>req_prompt = ''Explain photosynthesis'', req_name = None,
      req_temperature = Some (stepped 0 (fl (7 / 10)) (fl (1 / 10))),
      req_top_p = Some (listed [fl (1 / 10), fl (2 / 10), fl (3 / 10), fl (4 / 10), fl (5 / 10),
                                fl (6 / 10), fl (7 / 10)]),
      req_max_tokens = None,
      req_presence_penalty = None, req_frequency_penalty = None, req_model = ''gpt-3.5-turbo''\<rparr>"

text \<open>Listed values only: 5 * 5 * 2 = 50 combinations, and 17 * 3 = 51.\<close>

definition request_50 :: ExperimentRequest where
  "request_50 =
     \<lparr>req_prompt = ''Explain photosynthesis'', req_name = None,
      req_temperature = Some (listed [0, 1 / 4, 1 / 2, 3 / 4, 1]),
      req_top_p = Some (listed [1 / 8, 1 / 4, 1 / 2, 3 / 4, 1]),
      req_max_tokens = None,
      req_presence_penalty = Some (listed [0, 1]),
      req_frequency_penalty = None, req_model = ''gpt-3.5-turbo''\<rparr>"

definition request_51 :: ExperimentRequest where
  "request_51 =
     \<lparr>req_prompt = ''Explain photosynthesis'', req_name = None,
      req_temperature = Some (listed (map (\<lambda>k. of_nat k / 16) [0 ..< 17])),
      req_top_p = Some (listed [1 / 4, 1 / 2, 1]),
      req_max_tokens = None,
      req_presence_penalty = None,
      req_frequency_penalty = None, req_model = ''gpt-3.5-turbo''\<rparr>"

text \<open>A provider that answers every call with the same reply, and one whose call 0 fails.\<close>

definition steady_llm :: llm where
  "steady_llm i model_name prompt combo = Inr (''Plants turn light into sugar.'', 12)"

definition failing_llm :: llm where
  "failing_llm i model_name prompt combo =
     (if i = 0 then Inl (Exception ''rate limit'') else Inr (''Plants turn light into sugar.'', 12))"

definition two_combinations :: "ParameterCombination list" where
  "two_combinations = [default_combination, default_combination\<lparr>temperature := 1\<rparr>]"

text \<open>The rows a run saved, the generation calls it issued, and whether a row has metrics.\<close>

definition saved_rows ::
    "((http_error + Response list) \<times> ParameterCombination list) option \<Rightarrow> Response list option" where
  "saved_rows outcome = (case outcome of Some (Inr rows, calls) \<Rightarrow> Some rows | _ \<Rightarrow> None)"

definition issued_calls ::
    "((http_error + Response list) \<times> ParameterCombination list) option
      \<Rightarrow> ParameterCombination list option" where
  "issued_calls outcome = map_option snd outcome"

definition has_metrics :: "Response \<Rightarrow> bool" where
  "has_metrics row = (metrics row \<noteq> None)"

text \<open>Requests whose temperature range has a step of 0, a negative step, and \<^verbatim>\<open>max < min\<close>.\<close>

definition zero_step_request :: ExperimentRequest where
  "zero_step_request = photosynthesis_request\<lparr>req_temperature := Some (stepped 0 1 0)\<rparr>"

definition negative_step_request :: ExperimentRequest where
  "negative_step_request =
     photosynthesis_request\<lparr>req_temperature := Some (stepped 0 1 (- (1 / 2)))\<rparr>"

definition inverted_request :: ExperimentRequest where
  "inverted_request =
     photosynthesis_request
       \<lparr>req_temperature :=
          Some \<lparr>range_min = 1, range_max = 0, range_step = None, range_values = None\<rparr>\<rparr>"

text \<open>A reply of three sentences to the prompt of the end-to-end example.\<close>

definition sample_response :: string where
  "sample_response =
     ''Photosynthesis is the process. Plants use light! However, it is complex?''"

definition sample_prompt :: string where
  "sample_prompt = ''Explain photosynthesis''"

text \<open>Texts made of sentences, each followed by a full stop and a space; one sentence of
  fifteen words, and ten sentences that differ from it in the last word.\<close>

definition join_sentences :: "string list \<Rightarrow> string" where
  "join_sentences ss = concat (map (\<lambda>s. s @ ''. '') ss)"

definition echo_sentence :: string where
  "echo_sentence = ''a a a a a a a a a a a a a a b''"

definition echo_variants :: "string list" where
  "echo_variants = map (\<lambda>w. ''a a a a a a a a a a a a a a '' @ [w]) ''bcdefghijk''"

text \<open>Ten sentences of four words each, no word used twice.\<close>

definition distinct_sentences :: "string list" where
  "distinct_sentences =
     [''ab cd ef gh'', ''ij kl mn op'', ''qr st uv wx'', ''yz ba dc fe'', ''hg ji lk nm'',
      ''po rq ts vu'', ''xw zy ac bd'', ''eg fh ik jl'', ''mo np qs rt'', ''uw vx ya zb'']"


section \<open>Properties\<close>

subsection \<open>Rounding is monotone\<close>

lemma rne_mono: "x \<le> y \<Longrightarrow> rne x \<le> rne y"
proof -
  assume xy: "x \<le> y"
  have fm: "\<lfloor>x\<rfloor> \<le> \<lfloor>y\<rfloor>" using xy by (rule floor_mono)
  have lo: "\<And>z. \<lfloor>z\<rfloor> \<le> rne z" by (simp add: rne_def Let_def)
  have hi: "\<And>z. rne z \<le> \<lfloor>z\<rfloor> + 1" by (simp add: rne_def Let_def)
  show ?thesis
  proof (cases "\<lfloor>x\<rfloor> = \<lfloor>y\<rfloor>")
    case True
    then show ?thesis using xy by (auto simp: rne_def Let_def)
  next
    case False
    with fm have "\<lfloor>x\<rfloor> + 1 \<le> \<lfloor>y\<rfloor>" by simp
    with lo[of y] hi[of x] show ?thesis by linarith
  qed
qed

lemma rne_of_int: "rne (of_int n) = n"
  by (simp add: rne_def Let_def)

lemma bitlen_powi_bounds:
  assumes "0 < p"
  shows "(2::rat) powi (bitlen p - 1) \<le> of_int p" and "of_int p < (2::rat) powi (bitlen p)"
proof -
  have b: "2 ^ nat (bitlen p - 1) \<le> p" "p < 2 ^ nat (bitlen p)"
    using bitlen_bounds[OF assms] by auto
  have b1: "1 \<le> bitlen p" using assms by (auto simp: bitlen_alt_def)
  have "(2::rat) powi (bitlen p - 1) = of_int (2 ^ nat (bitlen p - 1))"
    using b1 by (simp add: power_int_def)
  also have "\<dots> \<le> of_int p" using b(1) by (subst of_int_le_iff)
  finally show "(2::rat) powi (bitlen p - 1) \<le> of_int p" .
  have "of_int p < (of_int (2 ^ nat (bitlen p)) :: rat)" using b(2) by (subst of_int_less_iff)
  also have "\<dots> = 2 powi (bitlen p)" using b1 by (simp add: power_int_def)
  finally show "of_int p < (2::rat) powi (bitlen p)" .
qed

lemma ilog2_bounds:
  assumes "0 < x"
  shows "2 powi (ilog2 x) \<le> x \<and> x < 2 powi (ilog2 x + 1)"
proof -
  obtain p q where pq: "quotient_of x = (p, q)" by (cases "quotient_of x")
  have q: "0 < q" using pq by (rule quotient_of_denom_pos)
  have x: "x = of_int p / of_int q" using pq by (rule quotient_of_div)
  have p: "0 < p" using assms q x by (simp add: zero_less_divide_iff)
  define k where "k = bitlen p - bitlen q"
  note P = bitlen_powi_bounds[OF p] and Q = bitlen_powi_bounds[OF q]
  have qpos: "(0::rat) < of_int q" using q by simp
  have lower: "2 powi (k - 1) < x"
  proof -
    have "(2::rat) powi (k - 1) * of_int q < 2 powi (k - 1) * 2 powi (bitlen q)"
      using Q(2) by (simp add: mult_strict_left_mono)
    also have "\<dots> = 2 powi (bitlen p - 1)"
      by (simp add: k_def power_int_add[symmetric])
    also have "\<dots> \<le> of_int p" by (rule P(1))
    finally show ?thesis using qpos by (simp add: x pos_less_divide_eq)
  qed
  have upper: "x < 2 powi (k + 1)"
  proof -
    have "of_int p < (2::rat) powi (bitlen p)" by (rule P(2))
    also have "\<dots> = 2 powi (k + 1) * 2 powi (bitlen q - 1)"
      by (simp add: k_def power_int_add[symmetric])
    also have "\<dots> \<le> 2 powi (k + 1) * of_int q"
      using Q(1) by (simp add: mult_left_mono)
    finally show ?thesis using qpos by (simp add: x pos_divide_less_eq)
  qed
  show ?thesis
  proof (cases "(2::rat) powi k \<le> x")
    case True
    then have "ilog2 x = k" by (simp add: ilog2_def pq k_def Let_def)
    with True upper show ?thesis by simp
  next
    case False
    then have "ilog2 x = k - 1" by (simp add: ilog2_def pq k_def Let_def)
    with False lower show ?thesis by simp
  qed
qed

lemma ilog2_mono:
  assumes "0 < x" "x \<le> y"
  shows "ilog2 x \<le> ilog2 y"
proof (rule ccontr)
  assume "\<not> ilog2 x \<le> ilog2 y"
  then have "ilog2 y + 1 \<le> ilog2 x" by simp
  then have "(2::rat) powi (ilog2 y + 1) \<le> 2 powi (ilog2 x)"
    by (intro power_int_increasing) auto
  also have "\<dots> \<le> x" using ilog2_bounds[OF assms(1)] by simp
  finally show False using ilog2_bounds[of y] assms by simp
qed

lemma fl_pos_bounds:
  assumes "0 < x"
  shows "2 powi (ilog2 x) \<le> fl x \<and> fl x \<le> 2 powi (ilog2 x + 1)"
proof -
  define e where "e = ilog2 x - 52"
  define y where "y = x / 2 powi e"
  have pe: "(0::rat) < 2 powi e" by simp
  have flx: "fl x = of_int (rne y) * 2 powi e"
    using assms by (simp add: fl_def Let_def e_def y_def)
  have lo: "(2::rat) powi (ilog2 x) = 2 ^ 52 * 2 powi e"
    by (simp add: e_def power_int_diff)
  have hi: "(2::rat) powi (ilog2 x + 1) = 2 ^ 53 * 2 powi e"
    by (simp add: e_def power_int_diff power_int_add)
  have "2 powi (ilog2 x) \<le> x" "x < 2 powi (ilog2 x + 1)"
    using ilog2_bounds[OF assms] by auto
  then have y: "2 ^ 52 \<le> y" "y \<le> 2 ^ 53"
    using pe unfolding lo hi by (simp_all add: y_def pos_le_divide_eq pos_divide_le_eq)
  have "rne (of_int (2 ^ 52)) \<le> rne y" using y(1) by (intro rne_mono) simp
  then have m1: "2 ^ 52 \<le> rne y" by (simp only: rne_of_int)
  have "rne y \<le> rne (of_int (2 ^ 53))" using y(2) by (intro rne_mono) simp
  then have m2: "rne y \<le> 2 ^ 53" by (simp only: rne_of_int)
  have r1: "(2::rat) ^ 52 \<le> of_int (rne y)"
    using m1 by (metis of_int_le_iff of_int_numeral of_int_power)
  have r2: "of_int (rne y) \<le> (2::rat) ^ 53"
    using m2 by (metis of_int_le_iff of_int_numeral of_int_power)
  show ?thesis
    unfolding flx lo hi using r1 r2 pe by (simp add: mult_right_mono)
qed

lemma fl_pos: "0 < x \<Longrightarrow> 0 < fl x"
  using fl_pos_bounds[of x] zero_less_power_int[of "2::rat" "ilog2 x"] by linarith

lemma fl_zero [simp]: "fl 0 = 0"
  by (simp add: fl_def)

lemma fl_minus: "fl (- x) = - fl x"
  by (simp add: fl_def Let_def)

lemma fl_mono_pos:
  assumes "0 < x" "x \<le> y"
  shows "fl x \<le> fl y"
proof (cases "ilog2 x = ilog2 y")
  case True
  have y: "0 < y" using assms by simp
  have "rne (x / 2 powi (ilog2 y - 52)) \<le> rne (y / 2 powi (ilog2 y - 52))"
    using assms by (intro rne_mono) (simp add: divide_right_mono)
  then have "(of_int (rne (x / 2 powi (ilog2 y - 52))) :: rat)
      \<le> of_int (rne (y / 2 powi (ilog2 y - 52)))"
    by simp
  then show ?thesis using assms y True
    by (simp add: fl_def Let_def mult_right_mono)
next
  case False
  have y: "0 < y" using assms by simp
  from False ilog2_mono[OF assms] have "ilog2 x + 1 \<le> ilog2 y" by simp
  then have "(2::rat) powi (ilog2 x + 1) \<le> 2 powi (ilog2 y)"
    by (intro power_int_increasing) auto
  with fl_pos_bounds[OF assms(1)] fl_pos_bounds[OF y] show ?thesis by linarith
qed

lemma fl_mono: "x \<le> y \<Longrightarrow> fl x \<le> fl y"
proof -
  assume xy: "x \<le> y"
  consider "0 < x" | "x = 0" | "x < 0" "0 \<le> y" | "y < 0" by linarith
  then show ?thesis
  proof cases
    case 1 then show ?thesis using xy by (rule fl_mono_pos)
  next
    case 2
    then show ?thesis using xy fl_pos[of y] by (cases "y = 0") auto
  next
    case 3
    have "fl x < 0" using fl_pos[of "- x"] 3(1) by (simp add: fl_minus)
    moreover have "0 \<le> fl y" using fl_pos[of y] 3(2) by (cases "y = 0") auto
    ultimately show ?thesis by simp
  next
    case 4
    have "fl (- y) \<le> fl (- x)" using 4 xy by (intro fl_mono_pos) auto
    then show ?thesis by (simp add: fl_minus)
  qed
qed

subsection \<open>Evaluating the rounding on numerals\<close>

lemma ilog2_unique:
  assumes "0 < x" "2 powi k \<le> x" "x < 2 powi (k + 1)"
  shows "ilog2 x = k"
proof (rule antisym)
  show "ilog2 x \<le> k"
  proof (rule ccontr)
    assume "\<not> ilog2 x \<le> k"
    then have "k + 1 \<le> ilog2 x" by simp
    then have "(2::rat) powi (k + 1) \<le> 2 powi (ilog2 x)" by (intro power_int_increasing) auto
    with ilog2_bounds[OF assms(1)] assms(3) show False by simp
  qed
  show "k \<le> ilog2 x"
  proof (rule ccontr)
    assume "\<not> k \<le> ilog2 x"
    then have "ilog2 x + 1 \<le> k" by simp
    then have "(2::rat) powi (ilog2 x + 1) \<le> 2 powi k" by (intro power_int_increasing) auto
    with ilog2_bounds[OF assms(1)] assms(2) show False by simp
  qed
qed

lemma ilog2_step:
  assumes "0 < x"
  shows "ilog2 x = (if 2 \<le> x then ilog2 (x / 2) + 1 else if x < 1 then ilog2 (x * 2) - 1 else 0)"
proof -
  have A: "ilog2 x = ilog2 (x / 2) + 1"
  proof (rule ilog2_unique[OF assms])
    have h: "0 < x / 2" using assms by simp
    show "2 powi (ilog2 (x / 2) + 1) \<le> x"
      using ilog2_bounds[OF h] by (simp add: power_int_add)
    show "x < 2 powi (ilog2 (x / 2) + 1 + 1)"
      using ilog2_bounds[OF h] by (simp add: power_int_add)
  qed
  have B: "ilog2 x = ilog2 (x * 2) - 1"
  proof (rule ilog2_unique[OF assms])
    have h: "0 < x * 2" using assms by simp
    show "2 powi (ilog2 (x * 2) - 1) \<le> x"
      using ilog2_bounds[OF h] by (simp add: power_int_diff)
    show "x < 2 powi (ilog2 (x * 2) - 1 + 1)"
      using ilog2_bounds[OF h] by (simp add: power_int_add)
  qed
  have C: "\<not> 2 \<le> x \<Longrightarrow> \<not> x < 1 \<Longrightarrow> ilog2 x = 0"
    by (rule ilog2_unique[OF assms]) auto
  show ?thesis using A B C by auto
qed

lemma fl_pos_eval:
  assumes "0 < x"
  shows "fl x = (if 52 \<le> ilog2 x then of_int (rne (x / 2 ^ nat (ilog2 x - 52))) * 2 ^ nat (ilog2 x - 52)
     else of_int (rne (x * 2 ^ nat (52 - ilog2 x))) / 2 ^ nat (52 - ilog2 x))"
proof (cases "52 \<le> ilog2 x")
  case True
  then have "(2::rat) powi (ilog2 x - 52) = 2 ^ nat (ilog2 x - 52)" by (simp add: power_int_def)
  then show ?thesis using assms True by (simp add: fl_def Let_def)
next
  case False
  then have "(2::rat) powi (ilog2 x - 52) = 1 / 2 ^ nat (52 - ilog2 x)"
    by (simp add: power_int_def field_simps)
  then show ?thesis using assms False by (simp add: fl_def Let_def)
qed

lemma fl_neg_eval: "x < 0 \<Longrightarrow> fl x = - fl (- x)"
  by (simp add: fl_minus)

lemma rne_numeral_div:
  "rne (numeral a / numeral b) =
     (let q = numeral a div numeral b; r = numeral a mod numeral b :: int in
      if 2 * r < numeral b then q else if numeral b < 2 * r then q + 1
      else if even q then q else q + 1)"
proof -
  define A B :: int where "A = numeral a" and "B = numeral b"
  define R where "R = A mod B"
  define Q where "Q = A div B"
  have B: "0 < B" by (simp add: B_def)
  have Bq: "(0::rat) < of_int B" using B by simp
  have x: "(numeral a / numeral b :: rat) = of_int A / of_int B" by (simp add: A_def B_def)
  have f: "\<lfloor>of_int A / of_int B :: rat\<rfloor> = Q" unfolding Q_def by (rule floor_divide_of_int_eq)
  have "A = B * Q + R" by (simp add: Q_def R_def)
  then have "(of_int A :: rat) = of_int B * of_int Q + of_int R" by (metis of_int_add of_int_mult)
  then have d: "(of_int A / of_int B :: rat) - of_int Q = of_int R / of_int B"
    using Bq by (simp add: field_simps)
  have c1: "(of_int R / of_int B :: rat) < 1 / 2 \<longleftrightarrow> 2 * R < B"
  proof -
    have "(of_int R / of_int B :: rat) < 1 / 2 \<longleftrightarrow> (of_int (2 * R) :: rat) < of_int B"
      using Bq by (simp add: field_simps)
    then show ?thesis by (simp only: of_int_less_iff)
  qed
  have c2: "1 / 2 < (of_int R / of_int B :: rat) \<longleftrightarrow> B < 2 * R"
  proof -
    have "1 / 2 < (of_int R / of_int B :: rat) \<longleftrightarrow> (of_int B :: rat) < of_int (2 * R)"
      using Bq by (simp add: field_simps)
    then show ?thesis by (simp only: of_int_less_iff)
  qed
  have "rne (of_int A / of_int B) =
     (if 2 * R < B then Q else if B < 2 * R then Q + 1 else if even Q then Q else Q + 1)"
    unfolding rne_def Let_def f d c1 c2 ..
  then show ?thesis
    unfolding x Let_def by (simp only: A_def B_def Q_def R_def)
qed

lemma rne_numeral: "rne (numeral a) = numeral a"
  using rne_of_int[of "numeral a"] by simp

lemma rne_zero: "rne 0 = 0"
  using rne_of_int[of 0] by simp

lemma rne_one: "rne 1 = 1"
  using rne_of_int[of 1] by simp

lemma floor_rat_numeral_div: "\<lfloor>numeral a / numeral b :: rat\<rfloor> = numeral a div numeral b"
  using floor_divide_of_int_eq[of "numeral a" "numeral b", where ?'a = rat] by simp

lemmas fl_eval =
  fl_pos_eval fl_neg_eval rne_numeral_div rne_numeral rne_zero rne_one ilog2_step
  floor_rat_numeral_div Let_def

subsection \<open>The parameter space: counting and enumeration\<close>

lemmas experiment_eval =
  get_values_def count_values_def count_agrees_def truthy_list_def truthy_float_def
  get_values_loop.simps fadd_def fsub_def fdiv_def py_round3_def py_int_def and_then_def
  total_combinations_def generate_parameter_combinations_def validate_parameter_ranges_def
  MAX_COMBINATIONS_def stepped_def listed_def

text \<open>
  C10: a range whose step is exactly 0 and which lists no values is treated by
  \<open>get_values\<close> and by \<open>count_values\<close> as a range without step: two values \<open>min, max\<close> when
  they differ, the single value \<open>min\<close> otherwise. The enumeration loop is not entered (the
  result is there for every range) and the validation of the range does not look at the step.
\<close>

theorem zero_step_treated_as_absent:
  assumes "range_step r = Some 0" and "range_values r = None"
  shows "get_values (Some r) dflt =
           Some (if range_min r \<noteq> range_max r then [range_min r, range_max r] else [range_min r])
       \<and> get_values (Some r) dflt = get_values (Some (r\<lparr>range_step := None\<rparr>)) dflt
       \<and> count_values (Some r) dflt = Inr (if range_min r \<noteq> range_max r then 2 else 1)
       \<and> count_values (Some r) dflt = count_values (Some (r\<lparr>range_step := None\<rparr>)) dflt
       \<and> ParameterRange_errors r = ParameterRange_errors (r\<lparr>range_step := None\<rparr>)"
  using assms
  by (simp add: get_values_def count_values_def truthy_list_def truthy_float_def
      ParameterRange_errors_def)

theorem zero_step_treated_as_absent_witness:
  "get_values (Some \<lparr>range_min = 0, range_max = 1, range_step = Some 0, range_values = None\<rparr>) 5
     = Some [0, 1]
   \<and> count_values (Some \<lparr>range_min = 0, range_max = 1, range_step = Some 0, range_values = None\<rparr>) 5
     = Inr 2
   \<and> ParameterRange_errors \<lparr>range_min = 0, range_max = 1, range_step = Some 0, range_values = None\<rparr>
     = []"
  using zero_step_treated_as_absent
    [of "\<lparr>range_min = 0, range_max = 1, range_step = Some 0, range_values = None\<rparr>" 5]
  by (simp add: ParameterRange_errors_def)

lemma total_combinations_agree:
  assumes "count_agrees (req_temperature request) (fl (7 / 10))"
      and "count_agrees (req_top_p request) 1"
      and "count_agrees (req_max_tokens request) 1000"
      and "count_agrees (req_presence_penalty request) 0"
      and "count_agrees (req_frequency_penalty request) 0"
  shows "\<exists>combos. generate_parameter_combinations request = Some combos
           \<and> total_combinations request = Inr (int (length combos))"
proof -
  from assms(1) obtain v1 where v1: "get_values (req_temperature request) (fl (7 / 10)) = Some v1"
      "count_values (req_temperature request) (fl (7 / 10)) = Inr (int (length v1))"
    by (auto simp: count_agrees_def split: option.splits)
  from assms(2) obtain v2 where v2: "get_values (req_top_p request) 1 = Some v2"
      "count_values (req_top_p request) 1 = Inr (int (length v2))"
    by (auto simp: count_agrees_def split: option.splits)
  from assms(3) obtain v3 where v3: "get_values (req_max_tokens request) 1000 = Some v3"
      "count_values (req_max_tokens request) 1000 = Inr (int (length v3))"
    by (auto simp: count_agrees_def split: option.splits)
  from assms(4) obtain v4 where v4: "get_values (req_presence_penalty request) 0 = Some v4"
      "count_values (req_presence_penalty request) 0 = Inr (int (length v4))"
    by (auto simp: count_agrees_def split: option.splits)
  from assms(5) obtain v5 where v5: "get_values (req_frequency_penalty request) 0 = Some v5"
      "count_values (req_frequency_penalty request) 0 = Inr (int (length v5))"
    by (auto simp: count_agrees_def split: option.splits)
  have tot: "total_combinations request =
      Inr (int (length v1) * int (length v2) * int (length v3) * int (length v4) * int (length v5))"
    by (simp add: total_combinations_def and_then_def v1 v2 v3 v4 v5)
  define L where
    "L = [\<lparr>temperature = t, top_p = p, max_tokens = m, presence_penalty = pp,
           frequency_penalty = fp\<rparr>.
          t \<leftarrow> v1, p \<leftarrow> v2, m \<leftarrow> map py_int v3, pp \<leftarrow> v4, fp \<leftarrow> v5]"
  have gen: "generate_parameter_combinations request = Some L"
    by (simp add: generate_parameter_combinations_def v1 v2 v3 v4 v5 L_def)
  have len: "length L = length v1 * (length v2 * (length v3 * (length v4 * length v5)))"
    unfolding L_def by (simp add: length_concat o_def sum_list_triv)
  show ?thesis
    unfolding gen tot by (simp add: len mult.assoc)
qed

text \<open>
  C4: when on each of the five slots the count of \<open>count_values\<close> is the number of values
  \<open>get_values\<close> enumerates, the product \<open>validate_parameter_ranges\<close> computes
  (\<open>total_combinations\<close>) is the length of the list \<open>generate_parameter_combinations\<close>
  returns. The witness is the range from 0 to 1 in steps of 0.5: three values 0, 0.5, 1.0
  and the count 3.
\<close>

theorem validate_count_eq_expand_length:
  assumes "count_agrees (req_temperature request) (fl (7 / 10))"
      and "count_agrees (req_top_p request) 1"
      and "count_agrees (req_max_tokens request) 1000"
      and "count_agrees (req_presence_penalty request) 0"
      and "count_agrees (req_frequency_penalty request) 0"
  shows "\<exists>combos. generate_parameter_combinations request = Some combos
           \<and> total_combinations request = Inr (int (length combos))"
  using assms by (rule total_combinations_agree)

lemma photosynthesis_values:
  "get_values (req_temperature photosynthesis_request) (fl (7 / 10)) = Some [0, 1 / 2, 1]"
  by (simp add: photosynthesis_request_def experiment_eval fl_eval split del: if_split)

lemma photosynthesis_count:
  "count_values (req_temperature photosynthesis_request) (fl (7 / 10)) = Inr 3"
  by (simp add: photosynthesis_request_def experiment_eval fl_eval split del: if_split)

theorem validate_count_eq_expand_length_witness:
  "get_values (Some (stepped 0 1 (1 / 2))) (fl (7 / 10)) = Some [0, 1 / 2, 1]
   \<and> count_values (Some (stepped 0 1 (1 / 2))) (fl (7 / 10)) = Inr 3
   \<and> generate_parameter_combinations photosynthesis_request =
       Some [default_combination\<lparr>temperature := 0\<rparr>, default_combination\<lparr>temperature := 1 / 2\<rparr>,
             default_combination\<lparr>temperature := 1\<rparr>]
   \<and> total_combinations photosynthesis_request = Inr 3"
proof -
  have a: "count_agrees (req_temperature photosynthesis_request) (fl (7 / 10))"
    by (simp add: count_agrees_def photosynthesis_values photosynthesis_count)
  have b: "count_agrees (req_top_p photosynthesis_request) 1"
      "count_agrees (req_max_tokens photosynthesis_request) 1000"
      "count_agrees (req_presence_penalty photosynthesis_request) 0"
      "count_agrees (req_frequency_penalty photosynthesis_request) 0"
    by (simp_all add: photosynthesis_request_def count_agrees_def get_values_def count_values_def)
  have g: "generate_parameter_combinations photosynthesis_request =
       Some [default_combination\<lparr>temperature := 0\<rparr>, default_combination\<lparr>temperature := 1 / 2\<rparr>,
             default_combination\<lparr>temperature := 1\<rparr>]"
    using photosynthesis_values
    by (simp add: generate_parameter_combinations_def photosynthesis_request_def
        get_values_def default_combination_def py_int_def)
  from validate_count_eq_expand_length[OF a b] g
  have "total_combinations photosynthesis_request = Inr 3" by auto
  with g photosynthesis_values photosynthesis_count show ?thesis
    by (simp add: photosynthesis_request_def)
qed

lemma request_56_temperatures:
  "get_values (req_temperature request_56) (fl (7 / 10)) =
     Some [0, fl (1 / 10), fl (2 / 10), fl (3 / 10), fl (4 / 10), fl (5 / 10), fl (6 / 10),
           fl (7 / 10)]"
  by (simp add: request_56_def experiment_eval fl_eval split del: if_split)

lemma request_56_count:
  "count_values (req_temperature request_56) (fl (7 / 10)) = Inr 7"
  by (simp add: request_56_def experiment_eval fl_eval split del: if_split)

text \<open>
  With temperature from 0 to 0.7 in steps of 0.1 the loop of \<open>get_values\<close> enumerates eight
  values (the sum 0.1 + ... + 0.1 stays below the float 0.7), while \<open>count_values\<close>
  truncates the quotient 0.7 / 0.1 = 6.999... to 6 and counts seven. With seven listed
  values of \<^verbatim>\<open>top_p\<close> the request is well-formed and has 56 combinations;
  \<open>validate_parameter_ranges\<close> counts 49 and accepts it.
\<close>

lemma request_56_accepted:
  "ExperimentRequest_errors request_56 = []
   \<and> map_option length (generate_parameter_combinations request_56) = Some 56
   \<and> total_combinations request_56 = Inr 49
   \<and> validate_parameter_ranges request_56 = Inr (True, None)"
proof -
  have e: "ExperimentRequest_errors request_56 = []"
    by (simp add: ExperimentRequest_errors_def slot_errors_def ParameterRange_errors_def
        request_56_def stepped_def listed_def fl_eval split del: if_split)
  have t: "total_combinations request_56 = Inr 49"
    using request_56_count
    by (simp add: total_combinations_def and_then_def)
       (simp add: request_56_def count_values_def truthy_list_def listed_def)
  have g: "map_option length (generate_parameter_combinations request_56) = Some 56"
    using request_56_temperatures
    by (simp add: generate_parameter_combinations_def)
       (simp add: request_56_def get_values_def truthy_list_def listed_def)
  show ?thesis using e t g
    by (simp add: validate_parameter_ranges_def and_then_def MAX_COMBINATIONS_def)
qed

lemma str_of_int_50: "str_of_int 50 = ''50''"
  by (simp add: str_of_int_def str_of_nat.simps)

lemma str_of_int_51: "str_of_int 51 = ''51''"
  by (simp add: str_of_int_def str_of_nat.simps)

text \<open>
  The validation compares its own count with the ceiling, for every request:
\<close>

lemma validation_threshold:
  assumes "total_combinations request = Inr n"
  shows "validate_parameter_ranges request =
           (if 50 < n then Inr (False, Some (too_many_message n)) else Inr (True, None))"
    and "50 < n \<Longrightarrow> create_experiment api_key llm order request =
           Some (Inl (HTTPException 400 (too_many_message n)), [])"
  using assms
  by (simp_all add: validate_parameter_ranges_def create_experiment_def and_then_def
      MAX_COMBINATIONS_def)

text \<open>
  When on every slot the step-based count is the number of values enumerated, the count is
  the number of combinations: validation fails for every request with more than 50
  combinations and succeeds otherwise, at exactly 50 too. When it fails, the message holds
  the count and the ceiling 50, and \<open>create_experiment\<close> answers 400 with this message and
  has issued no generation call.
\<close>

lemma validation_ceiling:
  assumes "count_agrees (req_temperature request) (fl (7 / 10))"
      and "count_agrees (req_top_p request) 1"
      and "count_agrees (req_max_tokens request) 1000"
      and "count_agrees (req_presence_penalty request) 0"
      and "count_agrees (req_frequency_penalty request) 0"
  shows "\<exists>combos. generate_parameter_combinations request = Some combos \<and>
           (if 50 < length combos
            then validate_parameter_ranges request =
                   Inr (False, Some (''Too many parameter combinations ('' @
                     str_of_int (int (length combos)) @
                     ''). Maximum allowed is 50. Please reduce the ranges or step sizes.''))
               \<and> create_experiment api_key llm order request =
                   Some (Inl (HTTPException 400 (''Too many parameter combinations ('' @
                     str_of_int (int (length combos)) @
                     ''). Maximum allowed is 50. Please reduce the ranges or step sizes.'')), [])
            else validate_parameter_ranges request = Inr (True, None))"
proof -
  from total_combinations_agree[OF assms] obtain combos where
    c: "generate_parameter_combinations request = Some combos"
       "total_combinations request = Inr (int (length combos))" by blast
  have m: "too_many_message n = ''Too many parameter combinations ('' @ str_of_int n @
      ''). Maximum allowed is 50. Please reduce the ranges or step sizes.''" for n
    by (simp add: too_many_message_def MAX_COMBINATIONS_def str_of_int_50)
  have v: "validate_parameter_ranges request =
      (if 50 < length combos then Inr (False, Some (too_many_message (int (length combos))))
       else Inr (True, None))"
    by (simp add: validate_parameter_ranges_def c and_then_def MAX_COMBINATIONS_def)
  show ?thesis
    using c(1) v by (auto simp: create_experiment_def m)
qed

lemma validation_ceiling_examples:
  "map_option length (generate_parameter_combinations request_50) = Some 50
   \<and> validate_parameter_ranges request_50 = Inr (True, None)
   \<and> map_option length (generate_parameter_combinations request_51) = Some 51
   \<and> validate_parameter_ranges request_51 =
       Inr (False, Some ''Too many parameter combinations (51). Maximum allowed is 50. Please reduce the ranges or step sizes.'')
   \<and> create_experiment (Some ''sk-test'') steady_llm [] request_51 =
       Some (Inl (HTTPException 400
         ''Too many parameter combinations (51). Maximum allowed is 50. Please reduce the ranges or step sizes.''), [])"
proof -
  have a50: "count_agrees (req_temperature request_50) (fl (7 / 10))"
      "count_agrees (req_top_p request_50) 1"
      "count_agrees (req_max_tokens request_50) 1000"
      "count_agrees (req_presence_penalty request_50) 0"
      "count_agrees (req_frequency_penalty request_50) 0"
    by (simp_all add: request_50_def count_agrees_def get_values_def count_values_def
        truthy_list_def listed_def)
  have a51: "count_agrees (req_temperature request_51) (fl (7 / 10))"
      "count_agrees (req_top_p request_51) 1"
      "count_agrees (req_max_tokens request_51) 1000"
      "count_agrees (req_presence_penalty request_51) 0"
      "count_agrees (req_frequency_penalty request_51) 0"
    by (simp_all add: request_51_def count_agrees_def get_values_def count_values_def
        truthy_list_def listed_def)
  have g50: "map_option length (generate_parameter_combinations request_50) = Some 50"
    by (simp add: generate_parameter_combinations_def request_50_def get_values_def
        truthy_list_def listed_def)
  have g51: "map_option length (generate_parameter_combinations request_51) = Some 51"
    by (simp add: generate_parameter_combinations_def request_51_def get_values_def
        truthy_list_def listed_def length_concat o_def sum_list_triv)
  from validation_ceiling[OF a50, of None steady_llm "[]"] g50
  have v50: "validate_parameter_ranges request_50 = Inr (True, None)" by auto
  from validation_ceiling[OF a51, of "Some ''sk-test''" steady_llm "[]"] g51
  have v51: "validate_parameter_ranges request_51 =
       Inr (False, Some ''Too many parameter combinations (51). Maximum allowed is 50. Please reduce the ranges or step sizes.'')"
    "create_experiment (Some ''sk-test'') steady_llm [] request_51 =
       Some (Inl (HTTPException 400
         ''Too many parameter combinations (51). Maximum allowed is 50. Please reduce the ranges or step sizes.''), [])"
    by (auto simp: str_of_int_51)
  show ?thesis using g50 v50 g51 v51 by simp
qed

subsection \<open>The scorer raises on an empty prompt only\<close>

lemma fl_eq_0_iff: "fl x = 0 \<longleftrightarrow> x = 0"
proof
  assume "fl x = 0"
  show "x = 0"
  proof (rule ccontr)
    assume "x \<noteq> 0"
    then consider "0 < x" | "0 < - x" by linarith
    then show False
    proof cases
      case 1 then show False using fl_pos[of x] \<open>fl x = 0\<close> by simp
    next
      case 2 then show False using fl_pos[of "- x"] \<open>fl x = 0\<close> by (simp add: fl_minus)
    qed
  qed
qed simp

lemma float_of_int_eq_0_iff: "float_of_int n = 0 \<longleftrightarrow> n = 0"
  by (simp add: float_of_int_def fl_eq_0_iff)

lemma coherence_total: "\<exists>s. calc_coherence_score t = Inr s"
proof -
  have "max (fmul (float_of_int (int (length (stripped_sentences t)))) (fl (3 / 10))) 1 \<noteq> 0"
    by (simp add: max_def)
  then show ?thesis
    by (auto simp: calc_coherence_score_def and_then_def int_truediv_def fdiv_def Let_def
        float_of_int_eq_0_iff)
qed

lemma completeness_total: "\<exists>s. calc_completeness_score t p = Inr s"
proof -
  have "card (keyword_set p) = 0 \<longleftrightarrow> keyword_set p = {}"
    by (simp add: keyword_set_def)
  then show ?thesis
    by (simp add: calc_completeness_score_def and_then_def int_truediv_def Let_def max_def)
qed

lemma length_appropriateness_total:
  assumes "p \<noteq> []"
  shows "\<exists>s. calc_length_appropriateness t p tok = Inr s"
proof -
  have "int (length p) * 8 \<noteq> 0" using assms by simp
  moreover have "fmul (float_of_int (int (length p))) (fl (3 / 2)) \<noteq> 0"
    if "of_int (int (length t)) < fmul (float_of_int (int (length p))) (fl (3 / 2))"
    using that by auto
  ultimately show ?thesis
    by (auto simp: calc_length_appropriateness_def and_then_def int_truediv_def fdiv_def
        Let_def split: option.splits)
qed

lemma repetition_total: "\<exists>s. calc_repetition_penalty t = Inr s"
  by (auto simp: calc_repetition_penalty_def and_then_def int_truediv_def Let_def)

lemma structural_total: "\<exists>s. calc_structural_richness t = Inr s"
  by (auto simp: calc_structural_richness_def and_then_def int_truediv_def Let_def max_def)

lemma calculate_all_total:
  assumes "p \<noteq> []"
  shows "\<exists>m. calculate_all t p tok = Inr m"
proof -
  obtain c where c: "calc_coherence_score t = Inr c" using coherence_total by blast
  obtain cm where cm: "calc_completeness_score t p = Inr cm" using completeness_total by blast
  obtain l where l: "calc_length_appropriateness t p tok = Inr l"
    using length_appropriateness_total[OF assms] by blast
  obtain r where r: "calc_repetition_penalty t = Inr r" using repetition_total by blast
  obtain s where s: "calc_structural_richness t = Inr s" using structural_total by blast
  show ?thesis by (simp add: calculate_all_def and_then_def c cm l r s)
qed

lemma calculate_all_empty_prompt:
  assumes "t \<noteq> []"
  shows "calculate_all t [] tok = Inl ZeroDivisionError"
proof -
  obtain c where c: "calc_coherence_score t = Inr c" using coherence_total by blast
  obtain cm where cm: "calc_completeness_score t [] = Inr cm" using completeness_total by blast
  have "calc_length_appropriateness t [] tok = Inl ZeroDivisionError"
    using assms
    by (simp add: calc_length_appropriateness_def and_then_def int_truediv_def fdiv_def
        Let_def float_of_int_def fmul_def)
  then show ?thesis by (simp add: calculate_all_def and_then_def c cm)
qed

subsection \<open>The batch keeps the order of its input\<close>

lemma fill_slots:
  assumes "length slots = length tasks"
  shows "length (fold (\<lambda>i slots. if i < length slots then slots[i := Some (tasks ! i)] else slots)
                   order slots) = length tasks
       \<and> (\<forall>i < length tasks.
            fold (\<lambda>i slots. if i < length slots then slots[i := Some (tasks ! i)] else slots)
              order slots ! i
            = (if i \<in> set order then Some (tasks ! i) else slots ! i))"
  using assms
proof (induction order arbitrary: slots)
  case Nil
  then show ?case by simp
next
  case (Cons j order)
  let ?s = "if j < length slots then slots[j := Some (tasks ! j)] else slots"
  have len: "length ?s = length tasks" using Cons.prems by simp
  from Cons.IH[OF len] show ?case
    using Cons.prems by (auto simp: nth_list_update)
qed

lemma those_map_Some: "those (map Some xs) = Some xs"
  by (induction xs) simp_all

lemma gather_complete:
  assumes "{..<length tasks} \<subseteq> set order"
  shows "gather tasks order = Some tasks"
proof -
  let ?F = "fold (\<lambda>i slots. if i < length slots then slots[i := Some (tasks ! i)] else slots)
              order (replicate (length tasks) None)"
  have f: "length ?F = length tasks" "\<forall>i < length tasks. ?F ! i = Some (tasks ! i)"
    using fill_slots[of "replicate (length tasks) None" tasks order] assms by auto
  have "?F = map Some tasks"
    by (rule nth_equalityI) (use f in auto)
  then show ?thesis by (simp add: gather_def those_map_Some)
qed

lemma combination_eta:
  "\<lparr>temperature = temperature c, top_p = top_p c, max_tokens = max_tokens c,
    presence_penalty = presence_penalty c, frequency_penalty = frequency_penalty c\<rparr>
   = (c :: ParameterCombination)"
  by (cases c) simp

text \<open>What the task of a combination returns, in terms of the provider's answer.\<close>

lemma batch_task_eq:
  "batch_task llm prompt model i combo =
     (case llm i model prompt combo of
        Inl e \<Rightarrow> Inl e
      | Inr (content, total_tokens) \<Rightarrow>
          Inr (content, if total_tokens \<noteq> 0 then Some total_tokens else None))"
  by (simp add: batch_task_def generate_response_def combination_eta)

lemma generate_batch_complete:
  assumes "{..<length combos} \<subseteq> set order"
  shows "generate_batch llm order prompt combos model =
     (Some (map (\<lambda>(i, combo). batch_entry combo (batch_task llm prompt model i combo))
            (enumerate 0 combos)),
      combos)"
proof -
  let ?tasks = "map (\<lambda>(i, combo). batch_task llm prompt model i combo) (enumerate 0 combos)"
  have g: "gather ?tasks order = Some ?tasks"
    using assms by (intro gather_complete) simp
  show ?thesis
    unfolding generate_batch_def Let_def g
    by (auto simp: enumerate_eq_zip intro!: nth_equalityI)
qed

lemma generate_batch_nth:
  assumes "{..<length combos} \<subseteq> set order"
  shows "\<exists>results. generate_batch llm order prompt combos model = (Some results, combos)
           \<and> length results = length combos
           \<and> (\<forall>i < length combos.
                 results ! i = batch_entry (combos ! i) (batch_task llm prompt model i (combos ! i)))"
  unfolding generate_batch_complete[OF assms]
  by (auto simp: enumerate_eq_zip)

text \<open>
  C2, as stated, fails where it says that the entry of a failed call carries an error
  descriptor and no text: the entry is built like any other, its text is
  \<^verbatim>\<open>"Error: "\<close> followed by the message of the exception, and no field marks the failure.
\<close>

theorem failed_call_keeps_text_counterexample:
  "fst (generate_batch failing_llm [1, 0] ''Explain photosynthesis'' two_combinations
         ''gpt-3.5-turbo'')
     = Some [with_parameters default_combination ''Error: rate limit'' None,
             with_parameters (default_combination\<lparr>temperature := 1\<rparr>)
               ''Plants turn light into sugar.'' (Some 12)]
   \<and> result_text (with_parameters default_combination ''Error: rate limit'' None)
       = ''Error: rate limit''"
proof -
  have "{..<length two_combinations} \<subseteq> set [1, 0 :: nat]"
    by (auto simp: two_combinations_def)
  from generate_batch_complete[OF this, of failing_llm "''Explain photosynthesis''" "''gpt-3.5-turbo''"]
  show ?thesis
    by (simp add: two_combinations_def batch_task_eq batch_entry_def failing_llm_def
        with_parameters_def)
qed

text \<open>
  C2, amended: for every provider, prompt, model and list of combinations, and every order
  of completion that completes each task, \<open>generate_batch\<close> returns a list as long as
  the input, the same for every such order; the entry at index \<open>i\<close> carries the five
  parameter values of \<open>combos ! i\<close>; when call \<open>i\<close> fails, the entry at \<open>i\<close> carries the
  text \<^verbatim>\<open>"Error: "\<close> followed by the message and no token count, and otherwise the reply and its
  token count. Each entry depends on the answer to its own call only.
\<close>

theorem generate_batch_ordered:
  assumes "{..<length combos} \<subseteq> set order"
  shows "\<exists>results.
           generate_batch llm order prompt combos model = (Some results, combos)
         \<and> generate_batch llm order prompt combos model
             = generate_batch llm [0 ..< length combos] prompt combos model
         \<and> length results = length combos
         \<and> (\<forall>i < length combos.
               temperature (results ! i) = temperature (combos ! i)
             \<and> top_p (results ! i) = top_p (combos ! i)
             \<and> max_tokens (results ! i) = max_tokens (combos ! i)
             \<and> presence_penalty (results ! i) = presence_penalty (combos ! i)
             \<and> frequency_penalty (results ! i) = frequency_penalty (combos ! i)
             \<and> (case llm i model prompt (combos ! i) of
                  Inl (Exception msg) \<Rightarrow>
                    result_text (results ! i) = ''Error: '' @ msg
                    \<and> tokens_used (results ! i) = None
                | Inr (content, total_tokens) \<Rightarrow>
                    result_text (results ! i) = content
                    \<and> tokens_used (results ! i)
                        = (if total_tokens \<noteq> 0 then Some total_tokens else None)))"
proof -
  from generate_batch_nth[OF assms] obtain results where
    r: "generate_batch llm order prompt combos model = (Some results, combos)"
       "length results = length combos"
       "\<forall>i < length combos.
          results ! i = batch_entry (combos ! i) (batch_task llm prompt model i (combos ! i))"
    by blast
  have o: "{..<length combos} \<subseteq> set [0 ..< length combos]" by auto
  have same: "generate_batch llm order prompt combos model
      = generate_batch llm [0 ..< length combos] prompt combos model"
    unfolding generate_batch_complete[OF assms] generate_batch_complete[OF o] ..
  have "\<forall>i < length combos.
               temperature (results ! i) = temperature (combos ! i)
             \<and> top_p (results ! i) = top_p (combos ! i)
             \<and> max_tokens (results ! i) = max_tokens (combos ! i)
             \<and> presence_penalty (results ! i) = presence_penalty (combos ! i)
             \<and> frequency_penalty (results ! i) = frequency_penalty (combos ! i)
             \<and> (case llm i model prompt (combos ! i) of
                  Inl (Exception msg) \<Rightarrow>
                    result_text (results ! i) = ''Error: '' @ msg
                    \<and> tokens_used (results ! i) = None
                | Inr (content, total_tokens) \<Rightarrow>
                    result_text (results ! i) = content
                    \<and> tokens_used (results ! i)
                        = (if total_tokens \<noteq> 0 then Some total_tokens else None))"
    using r(3)
    by (auto simp: batch_task_eq batch_entry_def with_parameters_def
        split: sum.splits exn.splits prod.splits)
  with r(1,2) same show ?thesis by blast
qed

theorem generate_batch_ordered_witness:
  "{..<length two_combinations} \<subseteq> set [1, 0 :: nat]
   \<and> generate_batch failing_llm [1, 0] ''Explain photosynthesis'' two_combinations ''gpt-3.5-turbo''
       = generate_batch failing_llm [0, 1] ''Explain photosynthesis'' two_combinations
           ''gpt-3.5-turbo''
   \<and> snd (generate_batch failing_llm [1, 0] ''Explain photosynthesis'' two_combinations
            ''gpt-3.5-turbo'') = two_combinations
   \<and> map_option (map result_text)
        (fst (generate_batch failing_llm [1, 0] ''Explain photosynthesis'' two_combinations
               ''gpt-3.5-turbo''))
       = Some [''Error: rate limit'', ''Plants turn light into sugar.'']
   \<and> map_option (map tokens_used)
        (fst (generate_batch failing_llm [1, 0] ''Explain photosynthesis'' two_combinations
               ''gpt-3.5-turbo''))
       = Some [None, Some 12]
   \<and> map_option (map temperature)
        (fst (generate_batch failing_llm [1, 0] ''Explain photosynthesis'' two_combinations
               ''gpt-3.5-turbo''))
       = Some [fl (7 / 10), 1]"
proof -
  have h: "{..<length two_combinations} \<subseteq> set [1, 0 :: nat]"
    by (auto simp: two_combinations_def)
  from generate_batch_ordered[OF h, of failing_llm "''Explain photosynthesis''" "''gpt-3.5-turbo''"]
  obtain results where
    r: "generate_batch failing_llm [1, 0] ''Explain photosynthesis'' two_combinations
          ''gpt-3.5-turbo'' = (Some results, two_combinations)"
      "generate_batch failing_llm [1, 0] ''Explain photosynthesis'' two_combinations ''gpt-3.5-turbo''
        = generate_batch failing_llm [0 ..< length two_combinations] ''Explain photosynthesis''
            two_combinations ''gpt-3.5-turbo''"
      "length results = length two_combinations"
      "\<forall>i < length two_combinations.
               temperature (results ! i) = temperature (two_combinations ! i)
             \<and> top_p (results ! i) = top_p (two_combinations ! i)
             \<and> max_tokens (results ! i) = max_tokens (two_combinations ! i)
             \<and> presence_penalty (results ! i) = presence_penalty (two_combinations ! i)
             \<and> frequency_penalty (results ! i) = frequency_penalty (two_combinations ! i)
             \<and> (case failing_llm i ''gpt-3.5-turbo'' ''Explain photosynthesis''
                       (two_combinations ! i) of
                  Inl (Exception msg) \<Rightarrow>
                    result_text (results ! i) = ''Error: '' @ msg
                    \<and> tokens_used (results ! i) = None
                | Inr (content, total_tokens) \<Rightarrow>
                    result_text (results ! i) = content
                    \<and> tokens_used (results ! i)
                        = (if total_tokens \<noteq> 0 then Some total_tokens else None))"
    by blast
  have l: "length results = 2" using r(3) by (simp add: two_combinations_def)
  then obtain a b where ab: "results = [a, b]"
    by (cases results; cases "tl results") auto
  have u: "[0 ..< length two_combinations] = [0, 1]"
    by (simp add: two_combinations_def upt_rec)
  have i0: "0 < length two_combinations" and i1: "1 < length two_combinations"
    by (simp_all add: two_combinations_def)
  from r(4)[rule_format, OF i0] r(4)[rule_format, OF i1] have
    "result_text a = ''Error: rate limit''" "tokens_used a = None"
    "temperature a = fl (7 / 10)"
    "result_text b = ''Plants turn light into sugar.''" "tokens_used b = Some 12"
    "temperature b = 1"
    by (simp_all add: ab two_combinations_def failing_llm_def default_combination_def)
  note f = this
  have g10: "generate_batch failing_llm [1, 0] ''Explain photosynthesis'' two_combinations
      ''gpt-3.5-turbo'' = (Some [a, b], two_combinations)"
    using r(1) ab by simp
  have g01: "generate_batch failing_llm [0, 1] ''Explain photosynthesis'' two_combinations
      ''gpt-3.5-turbo'' = (Some [a, b], two_combinations)"
    using r(2) g10 u by simp
  show ?thesis unfolding g10 g01 using h f by simp
qed

subsection \<open>The endpoint\<close>

lemma score_results_rows:
  assumes "p \<noteq> []"
  shows "\<exists>rows. score_results p rs = Inr rows \<and> length rows = length rs
           \<and> (\<forall>i < length rs. \<exists>m.
                 calculate_all (result_text (rs ! i)) p (tokens_used (rs ! i)) = Inr m
                 \<and> rows ! i = make_response (rs ! i) m)"
proof (induction rs)
  case Nil
  then show ?case by simp
next
  case (Cons r rs)
  then obtain rows where rows: "score_results p rs = Inr rows" "length rows = length rs"
      "\<forall>i < length rs. \<exists>m.
          calculate_all (result_text (rs ! i)) p (tokens_used (rs ! i)) = Inr m
          \<and> rows ! i = make_response (rs ! i) m"
    by blast
  obtain m where m: "calculate_all (result_text r) p (tokens_used r) = Inr m"
    using calculate_all_total[OF assms] by blast
  have "score_results p (r # rs) = Inr (make_response r m # rows)"
    by (simp add: and_then_def m rows(1))
  moreover have "\<forall>i < length (r # rs). \<exists>m'.
      calculate_all (result_text ((r # rs) ! i)) p (tokens_used ((r # rs) ! i)) = Inr m'
      \<and> (make_response r m # rows) ! i = make_response ((r # rs) ! i) m'"
    using m rows(3) by (auto simp: nth_Cons split: nat.splits)
  ultimately show ?case using rows(2) by auto
qed

lemma create_experiment_rows:
  assumes "req_prompt request \<noteq> []"
      and "validate_parameter_ranges request = Inr (True, None)"
      and "generate_parameter_combinations request = Some combos"
      and "LLMService_init api_key = Inr key"
      and "{..<length combos} \<subseteq> set order"
  shows "\<exists>rows. create_experiment api_key llm order request = Some (Inr rows, combos)
           \<and> length rows = length combos
           \<and> (\<forall>i < length combos. \<exists>m.
                 calculate_all
                   (result_text (batch_entry (combos ! i)
                      (batch_task llm (req_prompt request) (req_model request) i (combos ! i))))
                   (req_prompt request)
                   (tokens_used (batch_entry (combos ! i)
                      (batch_task llm (req_prompt request) (req_model request) i (combos ! i))))
                   = Inr m
                 \<and> rows ! i =
                     make_response
                       (batch_entry (combos ! i)
                          (batch_task llm (req_prompt request) (req_model request) i (combos ! i)))
                       m)"
proof -
  from generate_batch_nth[OF assms(5), of llm "req_prompt request" "req_model request"]
  obtain rs where
    rs: "generate_batch llm order (req_prompt request) combos (req_model request)
           = (Some rs, combos)"
        "length rs = length combos"
        "\<forall>i < length combos.
           rs ! i = batch_entry (combos ! i)
                      (batch_task llm (req_prompt request) (req_model request) i (combos ! i))"
    by blast
  from score_results_rows[OF assms(1), of rs] obtain rows where
    rows: "score_results (req_prompt request) rs = Inr rows" "length rows = length rs"
      "\<forall>i < length rs. \<exists>m.
          calculate_all (result_text (rs ! i)) (req_prompt request) (tokens_used (rs ! i)) = Inr m
          \<and> rows ! i = make_response (rs ! i) m"
    by blast
  have "create_experiment api_key llm order request = Some (Inr rows, combos)"
    by (simp add: create_experiment_def assms(2,3,4) rs(1) rows(1))
  then show ?thesis using rows(2,3) rs(2,3) by auto
qed

text \<open>The same, field by field.\<close>

lemma post_experiments_rows:
  assumes "ExperimentRequest_errors request = []"
      and "validate_parameter_ranges request = Inr (True, None)"
      and "generate_parameter_combinations request = Some combos"
      and "LLMService_init api_key = Inr key"
      and "{..<length combos} \<subseteq> set order"
  shows "\<exists>rows. post_experiments api_key llm order request = Some (Inr rows, combos)
           \<and> length rows = length combos
           \<and> (\<forall>i < length combos.
                 temperature (rows ! i) = temperature (combos ! i)
               \<and> top_p (rows ! i) = top_p (combos ! i)
               \<and> max_tokens (rows ! i) = max_tokens (combos ! i)
               \<and> presence_penalty (rows ! i) = presence_penalty (combos ! i)
               \<and> frequency_penalty (rows ! i) = frequency_penalty (combos ! i)
               \<and> response_text (rows ! i) =
                   (case llm i (req_model request) (req_prompt request) (combos ! i) of
                      Inl (Exception msg) \<Rightarrow> ''Error: '' @ msg
                    | Inr (content, total_tokens) \<Rightarrow> content)
               \<and> (\<exists>m. calculate_all (response_text (rows ! i)) (req_prompt request)
                          (response_tokens_used (rows ! i)) = Inr m
                      \<and> metrics (rows ! i) = Some m))"
proof -
  have p: "req_prompt request \<noteq> []"
    using assms(1) by (auto simp: ExperimentRequest_errors_def split: if_splits)
  from create_experiment_rows[OF p assms(2-5), of llm] obtain rows where
    rows: "create_experiment api_key llm order request = Some (Inr rows, combos)"
      "length rows = length combos"
      "\<forall>i < length combos. \<exists>m.
                 calculate_all
                   (result_text (batch_entry (combos ! i)
                      (batch_task llm (req_prompt request) (req_model request) i (combos ! i))))
                   (req_prompt request)
                   (tokens_used (batch_entry (combos ! i)
                      (batch_task llm (req_prompt request) (req_model request) i (combos ! i))))
                   = Inr m
                 \<and> rows ! i =
                     make_response
                       (batch_entry (combos ! i)
                          (batch_task llm (req_prompt request) (req_model request) i (combos ! i)))
                       m"
    by blast
  have "post_experiments api_key llm order request = Some (Inr rows, combos)"
    by (simp add: post_experiments_def assms(1) rows(1))
  moreover have "\<forall>i < length combos.
                 temperature (rows ! i) = temperature (combos ! i)
               \<and> top_p (rows ! i) = top_p (combos ! i)
               \<and> max_tokens (rows ! i) = max_tokens (combos ! i)
               \<and> presence_penalty (rows ! i) = presence_penalty (combos ! i)
               \<and> frequency_penalty (rows ! i) = frequency_penalty (combos ! i)
               \<and> response_text (rows ! i) =
                   (case llm i (req_model request) (req_prompt request) (combos ! i) of
                      Inl (Exception msg) \<Rightarrow> ''Error: '' @ msg
                    | Inr (content, total_tokens) \<Rightarrow> content)
               \<and> (\<exists>m. calculate_all (response_text (rows ! i)) (req_prompt request)
                          (response_tokens_used (rows ! i)) = Inr m
                      \<and> metrics (rows ! i) = Some m)"
  proof (intro allI impI)
    fix i assume "i < length combos"
    with rows(3) obtain m where m:
       "calculate_all
                   (result_text (batch_entry (combos ! i)
                      (batch_task llm (req_prompt request) (req_model request) i (combos ! i))))
                   (req_prompt request)
                   (tokens_used (batch_entry (combos ! i)
                      (batch_task llm (req_prompt request) (req_model request) i (combos ! i))))
                   = Inr m"
       "rows ! i =
                     make_response
                       (batch_entry (combos ! i)
                          (batch_task llm (req_prompt request) (req_model request) i (combos ! i)))
                       m"
      by blast
    show "temperature (rows ! i) = temperature (combos ! i)
               \<and> top_p (rows ! i) = top_p (combos ! i)
               \<and> max_tokens (rows ! i) = max_tokens (combos ! i)
               \<and> presence_penalty (rows ! i) = presence_penalty (combos ! i)
               \<and> frequency_penalty (rows ! i) = frequency_penalty (combos ! i)
               \<and> response_text (rows ! i) =
                   (case llm i (req_model request) (req_prompt request) (combos ! i) of
                      Inl (Exception msg) \<Rightarrow> ''Error: '' @ msg
                    | Inr (content, total_tokens) \<Rightarrow> content)
               \<and> (\<exists>m. calculate_all (response_text (rows ! i)) (req_prompt request)
                          (response_tokens_used (rows ! i)) = Inr m
                      \<and> metrics (rows ! i) = Some m)"
      using m(1) unfolding m(2)
      by (auto simp: make_response_def batch_entry_def batch_task_eq with_parameters_def
          split: sum.splits exn.splits prod.splits)
  qed
  ultimately show ?thesis using rows(2) by blast
qed

lemma get_values_loop_negative_step_aux:
  assumes "get_values_loop current rmax stp vals = Some y"
  shows "\<not> (stp < 0 \<and> fl rmax = rmax \<and> current \<le> rmax)"
proof (rule get_values_loop.raw_induct
    [where P = "\<lambda>c m s v y. \<not> (s < 0 \<and> fl m = m \<and> c \<le> m)", OF _ assms])
  fix loop c m s v y
  assume IH: "\<And>c m s v y. loop c m s v = Some y \<Longrightarrow> \<not> (s < 0 \<and> fl m = m \<and> c \<le> m)"
    and step: "(if c \<le> m then loop (fadd c s) m s (v @ [py_round3 c]) else Some v) = Some y"
  show "\<not> (s < 0 \<and> fl m = m \<and> c \<le> m)"
  proof
    assume a: "s < 0 \<and> fl m = m \<and> c \<le> m"
    then have "loop (fadd c s) m s (v @ [py_round3 c]) = Some y"
      using step by simp
    from IH[OF this] a have "\<not> fadd c s \<le> m" by simp
    moreover have "fl (c + s) \<le> fl m" using a by (intro fl_mono) simp
    ultimately show False using a by (simp add: fadd_def)
  qed
qed

text \<open>A negative step never passes \<^verbatim>\<open>max\<close>: the loop does not return.\<close>

lemma get_values_loop_negative_step:
  assumes "stp < 0" "fl rmax = rmax" "current \<le> rmax"
  shows "get_values_loop current rmax stp vals = None"
  using get_values_loop_negative_step_aux[of current rmax stp vals] assms
  by (cases "get_values_loop current rmax stp vals") auto

lemma fl_one: "fl 1 = 1"
  by (simp add: fl_eval split del: if_split)

lemma photosynthesis_errors: "ExperimentRequest_errors photosynthesis_request = []"
  by (simp add: ExperimentRequest_errors_def slot_errors_def ParameterRange_errors_def
      photosynthesis_request_def stepped_def)

lemma photosynthesis_combinations:
  "generate_parameter_combinations photosynthesis_request =
     Some [default_combination\<lparr>temperature := 0\<rparr>, default_combination\<lparr>temperature := 1 / 2\<rparr>,
           default_combination\<lparr>temperature := 1\<rparr>]"
  using photosynthesis_values
  by (simp add: generate_parameter_combinations_def photosynthesis_request_def
      get_values_def default_combination_def py_int_def)

lemma photosynthesis_valid: "validate_parameter_ranges photosynthesis_request = Inr (True, None)"
  using photosynthesis_count
  by (simp add: validate_parameter_ranges_def total_combinations_def and_then_def
      MAX_COMBINATIONS_def)
     (simp add: photosynthesis_request_def count_values_def)

lemma zero_step_errors: "ExperimentRequest_errors zero_step_request = []"
  by (simp add: ExperimentRequest_errors_def slot_errors_def ParameterRange_errors_def
      zero_step_request_def photosynthesis_request_def stepped_def)

lemma zero_step_valid: "validate_parameter_ranges zero_step_request = Inr (True, None)"
  by (simp add: validate_parameter_ranges_def total_combinations_def and_then_def
      MAX_COMBINATIONS_def zero_step_request_def photosynthesis_request_def count_values_def
      stepped_def truthy_list_def truthy_float_def)

lemma zero_step_combinations:
  "generate_parameter_combinations zero_step_request =
     Some [default_combination\<lparr>temperature := 0\<rparr>, default_combination\<lparr>temperature := 1\<rparr>]"
  by (simp add: generate_parameter_combinations_def zero_step_request_def
      photosynthesis_request_def get_values_def default_combination_def py_int_def
      stepped_def truthy_list_def truthy_float_def)

lemma negative_step_errors: "ExperimentRequest_errors negative_step_request = []"
  by (simp add: ExperimentRequest_errors_def slot_errors_def ParameterRange_errors_def
      negative_step_request_def photosynthesis_request_def stepped_def)

lemma negative_step_valid: "validate_parameter_ranges negative_step_request = Inr (True, None)"
  by (simp add: validate_parameter_ranges_def total_combinations_def and_then_def
      MAX_COMBINATIONS_def negative_step_request_def photosynthesis_request_def count_values_def
      stepped_def truthy_list_def truthy_float_def fdiv_def fsub_def py_int_def fl_eval
      split del: if_split)

lemma negative_step_hangs: "generate_parameter_combinations negative_step_request = None"
proof -
  have "get_values_loop 0 1 (- (1 / 2)) [] = None"
    by (rule get_values_loop_negative_step) (simp_all add: fl_one)
  then show ?thesis
    by (simp add: generate_parameter_combinations_def negative_step_request_def
        photosynthesis_request_def get_values_def stepped_def truthy_list_def truthy_float_def)
qed

lemma key_accepted: "LLMService_init (Some ''sk-test'') = Inr ''sk-test''"
  by (simp add: LLMService_init_def)

text \<open>
  C5 fails on the code: the request \<open>request_56\<close> (temperature from 0 to 0.7 in steps of
  0.1, seven listed values of \<^verbatim>\<open>top_p\<close>) is well-formed and expands to 56 combinations,
  more than the ceiling of 50. \<open>validate_parameter_ranges\<close> counts 7 temperatures where
  \<open>get_values\<close> enumerates 8 (\<^verbatim>\<open>int(0.7 / 0.1)\<close> is 6), so it counts 49 and accepts the
  request; the endpoint then issues 56 generation calls and saves 56 rows.
\<close>

theorem validation_accepts_56:
  "ExperimentRequest_errors request_56 = []
   \<and> map_option length (generate_parameter_combinations request_56) = Some 56
   \<and> total_combinations request_56 = Inr 49
   \<and> validate_parameter_ranges request_56 = Inr (True, None)
   \<and> map_option length
        (issued_calls (post_experiments (Some ''sk-test'') steady_llm [0 ..< 56] request_56))
       = Some 56
   \<and> map_option length
        (saved_rows (post_experiments (Some ''sk-test'') steady_llm [0 ..< 56] request_56))
       = Some 56"
proof -
  note a = request_56_accepted
  from a obtain combos where
    g: "generate_parameter_combinations request_56 = Some combos" and l: "length combos = 56"
    by auto
  have e: "ExperimentRequest_errors request_56 = []" using a by simp
  have v: "validate_parameter_ranges request_56 = Inr (True, None)" using a by simp
  have o: "{..<length combos} \<subseteq> set [0 ..< 56]" using l by auto
  from post_experiments_rows[OF e v g key_accepted o, of steady_llm]
  obtain rows where
    "post_experiments (Some ''sk-test'') steady_llm [0 ..< 56] request_56 = Some (Inr rows, combos)"
    "length rows = length combos"
    by blast
  then show ?thesis using a l by (simp add: issued_calls_def saved_rows_def)
qed

text \<open>
  C6, as stated, fails for the step: a request whose temperature range has the step 0 passes
  the validation of the request and the validation of the ranges, two generation calls are
  issued and two rows are saved. A negative step passes both validations too (the count is
  clamped to 1); the expansion then never returns.
\<close>

theorem nonpositive_step_accepted_counterexample:
  "ExperimentRequest_errors zero_step_request = []
   \<and> issued_calls (post_experiments (Some ''sk-test'') steady_llm [0, 1] zero_step_request)
       = Some [default_combination\<lparr>temperature := 0\<rparr>, default_combination\<lparr>temperature := 1\<rparr>]
   \<and> map_option (map response_text)
        (saved_rows (post_experiments (Some ''sk-test'') steady_llm [0, 1] zero_step_request))
       = Some [''Plants turn light into sugar.'', ''Plants turn light into sugar.'']
   \<and> ExperimentRequest_errors negative_step_request = []
   \<and> validate_parameter_ranges negative_step_request = Inr (True, None)
   \<and> post_experiments (Some ''sk-test'') steady_llm [0, 1] negative_step_request = None"
proof -
  have o: "{..<length [default_combination\<lparr>temperature := 0\<rparr>,
                        default_combination\<lparr>temperature := 1\<rparr>]} \<subseteq> set [0, 1 :: nat]"
    by auto
  from post_experiments_rows[OF zero_step_errors zero_step_valid zero_step_combinations
      key_accepted o, of steady_llm]
  obtain rows where rows:
    "post_experiments (Some ''sk-test'') steady_llm [0, 1] zero_step_request =
       Some (Inr rows, [default_combination\<lparr>temperature := 0\<rparr>,
                        default_combination\<lparr>temperature := 1\<rparr>])"
    "length rows = 2"
    "response_text (rows ! 0) = ''Plants turn light into sugar.''"
    "response_text (rows ! 1) = ''Plants turn light into sugar.''"
    by (auto simp: steady_llm_def)
  from rows(2) obtain a b where ab: "rows = [a, b]"
    by (cases rows; cases "tl rows") auto
  have n: "post_experiments (Some ''sk-test'') steady_llm [0, 1] negative_step_request = None"
    by (simp add: post_experiments_def negative_step_errors create_experiment_def
        negative_step_valid negative_step_hangs)
  show ?thesis
    using rows(3,4) zero_step_errors negative_step_errors negative_step_valid n
    unfolding rows(1) ab
    by (simp add: issued_calls_def saved_rows_def)
qed

text \<open>
  C6, amended: a request one of whose ranges has \<^verbatim>\<open>max < min\<close> is rejected by the
  validation of the request, before the handler runs: no generation call is issued. The
  validation of a range, whatever the range, does not depend on its step; and for every
  range a step of 0 gives the values and the count that no step gives.
\<close>

theorem inverted_range_rejected:
  "(Some r \<in> {req_temperature request, req_top_p request, req_max_tokens request,
                 req_presence_penalty request, req_frequency_penalty request}
      \<and> range_max r < range_min r
    \<longrightarrow> ExperimentRequest_errors request \<noteq> []
      \<and> post_experiments api_key llm order request
           = Some (Inl (RequestValidationError (ExperimentRequest_errors request)), []))
   \<and> ParameterRange_errors (r'\<lparr>range_step := s\<rparr>) = ParameterRange_errors r'
   \<and> get_values (Some (r'\<lparr>range_step := Some 0\<rparr>)) dflt
       = get_values (Some (r'\<lparr>range_step := None\<rparr>)) dflt
   \<and> count_values (Some (r'\<lparr>range_step := Some 0\<rparr>)) dflt
       = count_values (Some (r'\<lparr>range_step := None\<rparr>)) dflt"
proof -
  have rejected: "ExperimentRequest_errors request \<noteq> []
      \<and> post_experiments api_key llm order request
           = Some (Inl (RequestValidationError (ExperimentRequest_errors request)), [])"
    if slot: "Some r \<in> {req_temperature request, req_top_p request, req_max_tokens request,
                       req_presence_penalty request, req_frequency_penalty request}"
      and inv: "range_max r < range_min r"
  proof -
    have "ParameterRange_errors r \<noteq> []"
      using inv by (auto simp: ParameterRange_errors_def)
    moreover have "req_temperature request = Some r \<or> req_top_p request = Some r
        \<or> req_max_tokens request = Some r \<or> req_presence_penalty request = Some r
        \<or> req_frequency_penalty request = Some r"
      using slot by auto
    ultimately have "ExperimentRequest_errors request \<noteq> []"
      by (auto simp: ExperimentRequest_errors_def slot_errors_def)
    then show ?thesis by (simp add: post_experiments_def)
  qed
  have step: "ParameterRange_errors (r'\<lparr>range_step := s\<rparr>) = ParameterRange_errors r'"
    by (simp add: ParameterRange_errors_def)
  have zero: "get_values (Some (r'\<lparr>range_step := Some 0\<rparr>)) dflt
       = get_values (Some (r'\<lparr>range_step := None\<rparr>)) dflt"
    "count_values (Some (r'\<lparr>range_step := Some 0\<rparr>)) dflt
       = count_values (Some (r'\<lparr>range_step := None\<rparr>)) dflt"
    by (simp_all add: get_values_def count_values_def truthy_list_def truthy_float_def)
  from rejected step zero show ?thesis by blast
qed

theorem inverted_range_rejected_witness:
  "post_experiments (Some ''sk-test'') steady_llm [0, 1] inverted_request
     = Some (Inl (RequestValidationError
         [''max: Value error, max must be greater than or equal to min'']), [])"
proof -
  have e: "ExperimentRequest_errors inverted_request =
      [''max: Value error, max must be greater than or equal to min'']"
    by (simp add: ExperimentRequest_errors_def slot_errors_def ParameterRange_errors_def
        inverted_request_def photosynthesis_request_def)
  from inverted_range_rejected[where
      r = "\<lparr>range_min = 1, range_max = 0, range_step = None, range_values = None\<rparr>"
      and request = inverted_request and api_key = "Some ''sk-test''" and llm = steady_llm
      and order = "[0, 1]"
      and r' = "\<lparr>range_min = 1, range_max = 0, range_step = None, range_values = None\<rparr>"
      and s = None and dflt = 0]
  show ?thesis unfolding e by (simp add: inverted_request_def)
qed

text \<open>
  C3, as stated, fails for the failed calls: the loop of \<open>create_experiment\<close> scores every
  result. With a provider whose call 0 fails, the row at index 0 holds the text
  \<^verbatim>\<open>"Error: rate limit"\<close> and metrics, as the two other rows do.
\<close>

theorem failed_entry_is_scored_counterexample:
  "map_option (map response_text)
     (saved_rows (post_experiments (Some ''sk-test'') failing_llm [2, 0, 1] photosynthesis_request))
     = Some [''Error: rate limit'', ''Plants turn light into sugar.'',
             ''Plants turn light into sugar.'']
   \<and> map_option (map has_metrics)
       (saved_rows (post_experiments (Some ''sk-test'') failing_llm [2, 0, 1] photosynthesis_request))
     = Some [True, True, True]"
proof -
  let ?L = "[default_combination\<lparr>temperature := 0\<rparr>,
                        default_combination\<lparr>temperature := 1 / 2\<rparr>,
                        default_combination\<lparr>temperature := 1\<rparr>]"
  have o: "{..<length ?L} \<subseteq> set [2, 0, 1 :: nat]"
    by (auto simp: lessThan_Suc)
  from post_experiments_rows[OF photosynthesis_errors photosynthesis_valid
      photosynthesis_combinations key_accepted o, of failing_llm]
  obtain rows where
    p: "post_experiments (Some ''sk-test'') failing_llm [2, 0, 1] photosynthesis_request =
       Some (Inr rows, ?L)"
    and l: "length rows = length ?L"
    and a: "\<forall>i < length ?L.
                 temperature (rows ! i) = temperature (?L ! i)
               \<and> top_p (rows ! i) = top_p (?L ! i)
               \<and> max_tokens (rows ! i) = max_tokens (?L ! i)
               \<and> presence_penalty (rows ! i) = presence_penalty (?L ! i)
               \<and> frequency_penalty (rows ! i) = frequency_penalty (?L ! i)
               \<and> response_text (rows ! i) =
                   (case failing_llm i (req_model photosynthesis_request)
                           (req_prompt photosynthesis_request) (?L ! i) of
                      Inl (Exception msg) \<Rightarrow> ''Error: '' @ msg
                    | Inr (content, total_tokens) \<Rightarrow> content)
               \<and> (\<exists>m. calculate_all (response_text (rows ! i))
                          (req_prompt photosynthesis_request)
                          (response_tokens_used (rows ! i)) = Inr m
                      \<and> metrics (rows ! i) = Some m)"
    by blast
  have i: "0 < length ?L" "1 < length ?L" "2 < length ?L" by simp_all
  from l obtain r0 r1 r2 where rows: "rows = [r0, r1, r2]"
    by (cases rows; cases "tl rows"; cases "tl (tl rows)") auto
  from a[rule_format, OF i(1)] a[rule_format, OF i(2)] a[rule_format, OF i(3)]
  have "response_text r0 = ''Error: rate limit''" "has_metrics r0"
    "response_text r1 = ''Plants turn light into sugar.''" "has_metrics r1"
    "response_text r2 = ''Plants turn light into sugar.''" "has_metrics r2"
    by (auto simp: rows failing_llm_def has_metrics_def)
  then show ?thesis
    unfolding p rows by (simp add: saved_rows_def)
qed

text \<open>
  C3, amended: for a request that passes both validations, with an API key and an order of
  completion that completes every task, one row is saved per combination, in the order of
  the combinations, and every row holds the metrics \<open>calculate_all\<close> computes from its
  text and the prompt: the reply of a call that succeeded, and the text \<^verbatim>\<open>"Error: "\<close>
  followed by the message for a call that failed. No row is dropped.
\<close>

theorem every_entry_is_scored:
  assumes "ExperimentRequest_errors request = []"
      and "validate_parameter_ranges request = Inr (True, None)"
      and "generate_parameter_combinations request = Some combos"
      and "LLMService_init api_key = Inr key"
      and "{..<length combos} \<subseteq> set order"
  shows "\<exists>rows. post_experiments api_key llm order request = Some (Inr rows, combos)
           \<and> length rows = length combos
           \<and> (\<forall>i < length combos.
                 temperature (rows ! i) = temperature (combos ! i)
               \<and> top_p (rows ! i) = top_p (combos ! i)
               \<and> max_tokens (rows ! i) = max_tokens (combos ! i)
               \<and> presence_penalty (rows ! i) = presence_penalty (combos ! i)
               \<and> frequency_penalty (rows ! i) = frequency_penalty (combos ! i)
               \<and> response_text (rows ! i) =
                   (case llm i (req_model request) (req_prompt request) (combos ! i) of
                      Inl (Exception msg) \<Rightarrow> ''Error: '' @ msg
                    | Inr (content, total_tokens) \<Rightarrow> content)
               \<and> (\<exists>m. calculate_all (response_text (rows ! i)) (req_prompt request)
                          (response_tokens_used (rows ! i)) = Inr m
                      \<and> metrics (rows ! i) = Some m))"
  using assms by (rule post_experiments_rows)

theorem every_entry_is_scored_witness:
  "issued_calls (post_experiments (Some ''sk-test'') steady_llm [0, 1, 2] photosynthesis_request)
     = Some [default_combination\<lparr>temperature := 0\<rparr>, default_combination\<lparr>temperature := 1 / 2\<rparr>,
             default_combination\<lparr>temperature := 1\<rparr>]
   \<and> map_option (map response_text)
       (saved_rows (post_experiments (Some ''sk-test'') steady_llm [0, 1, 2] photosynthesis_request))
     = Some [''Plants turn light into sugar.'', ''Plants turn light into sugar.'',
             ''Plants turn light into sugar.'']
   \<and> map_option (map temperature)
       (saved_rows (post_experiments (Some ''sk-test'') steady_llm [0, 1, 2] photosynthesis_request))
     = Some [0, 1 / 2, 1]
   \<and> map_option (map has_metrics)
       (saved_rows (post_experiments (Some ''sk-test'') steady_llm [0, 1, 2] photosynthesis_request))
     = Some [True, True, True]"
proof -
  let ?L = "[default_combination\<lparr>temperature := 0\<rparr>,
                        default_combination\<lparr>temperature := 1 / 2\<rparr>,
                        default_combination\<lparr>temperature := 1\<rparr>]"
  have o: "{..<length ?L} \<subseteq> set [0, 1, 2 :: nat]"
    by (auto simp: lessThan_Suc)
  from every_entry_is_scored[OF photosynthesis_errors photosynthesis_valid
      photosynthesis_combinations key_accepted o, of steady_llm]
  obtain rows where
    p: "post_experiments (Some ''sk-test'') steady_llm [0, 1, 2] photosynthesis_request =
       Some (Inr rows, ?L)"
    and l: "length rows = length ?L"
    and a: "\<forall>i < length ?L.
                 temperature (rows ! i) = temperature (?L ! i)
               \<and> top_p (rows ! i) = top_p (?L ! i)
               \<and> max_tokens (rows ! i) = max_tokens (?L ! i)
               \<and> presence_penalty (rows ! i) = presence_penalty (?L ! i)
               \<and> frequency_penalty (rows ! i) = frequency_penalty (?L ! i)
               \<and> response_text (rows ! i) =
                   (case steady_llm i (req_model photosynthesis_request)
                           (req_prompt photosynthesis_request) (?L ! i) of
                      Inl (Exception msg) \<Rightarrow> ''Error: '' @ msg
                    | Inr (content, total_tokens) \<Rightarrow> content)
               \<and> (\<exists>m. calculate_all (response_text (rows ! i))
                          (req_prompt photosynthesis_request)
                          (response_tokens_used (rows ! i)) = Inr m
                      \<and> metrics (rows ! i) = Some m)"
    by blast
  have i: "0 < length ?L" "1 < length ?L" "2 < length ?L" by simp_all
  from l obtain r0 r1 r2 where rows: "rows = [r0, r1, r2]"
    by (cases rows; cases "tl rows"; cases "tl (tl rows)") auto
  from a[rule_format, OF i(1)] a[rule_format, OF i(2)] a[rule_format, OF i(3)]
  have "response_text r0 = ''Plants turn light into sugar.''" "has_metrics r0"
    "temperature r0 = 0"
    "response_text r1 = ''Plants turn light into sugar.''" "has_metrics r1"
    "temperature r1 = 1 / 2"
    "response_text r2 = ''Plants turn light into sugar.''" "has_metrics r2"
    "temperature r2 = 1"
    by (auto simp: rows steady_llm_def has_metrics_def)
  then show ?thesis
    unfolding p rows by (simp add: saved_rows_def issued_calls_def)
qed

subsection \<open>The scorer on a sample reply\<close>

lemma and_then_Inr: "and_then (Inr x) f = f x"
  by (simp add: and_then_def)

lemma and_then_Inl: "and_then (Inl e) f = Inl e"
  by (simp add: and_then_def)

lemma and_then_weak_cong: "r = r' \<Longrightarrow> and_then r f = and_then r' f"
  by simp

lemmas arith_eval =
  and_then_Inr and_then_Inl fadd_def fsub_def fmul_def fdiv_def float_of_int_def int_truediv_def
  float_sum_def

lemma sample_strings:
  "sample_response \<noteq> []"
  "length sample_response = 72"
  "length (strip sample_response) = 72"
  "length (stripped_sentences sample_response) = 3"
  "stripped_sentences sample_response \<noteq> []"
  "length (filter proper_ending (stripped_sentences sample_response)) = 0"
  "length (filter (\<lambda>t. contains t (lower sample_response)) transitions) = 1"
  "map (\<lambda>s. int (length s)) (stripped_sentences sample_response) = [29, 16, 22]"
  by code_simp+

lemma sample_strings2:
  "sample_prompt \<noteq> []"
  "length sample_prompt = 22"
  "length (filter (\<lambda>qw. contains qw (lower sample_prompt)) question_words) = 1"
  "keyword_set sample_prompt \<noteq> {}"
  "card (keyword_set sample_prompt \<inter> keyword_set sample_response) = 1"
  "card (keyword_set sample_prompt) = 2"
  "length (split_ws (lower sample_response)) = 11"
  "ngrams3 (split_ws (lower sample_response)) \<noteq> []"
  "card (set (ngrams3 (split_ws (lower sample_response)))) = 9"
  "length (ngrams3 (split_ws (lower sample_response))) = 9"
  "length (long_sentences sample_response) = 3"
  "card (set (long_sentences sample_response)) = 3"
  "length (str_split [CHR 0x0A, CHR 0x0A] sample_response) = 1"
  "count_matches (match_list_item numbered_marker) sample_response = 0"
  "count_matches (match_list_item bullet_marker) sample_response = 0"
  "count_matches (match_list_item lettered_marker) sample_response = 0"
  "sum_list (map (\<lambda>marker. count_sub marker sample_response) formatting_markers) = 0"
  "card (set (starters_of (stripped_sentences sample_response))) = 3"
  by code_simp+

lemma sample_coherence:
  "calc_coherence_score sample_response = Inr (3007203591182859 / 9007199254740992)"
  unfolding calc_coherence_score_def
  by (simp add: sample_strings arith_eval fl_eval split del: if_split
      cong: and_then_weak_cong let_weak_cong if_weak_cong)

lemma sample_completeness:
  "calc_completeness_score sample_response sample_prompt
     = Inr (5692549928996307 / 9007199254740992)"
  unfolding calc_completeness_score_def
  by (simp add: sample_strings sample_strings2 arith_eval fl_eval split del: if_split
      cong: and_then_weak_cong let_weak_cong if_weak_cong)

lemma sample_length:
  "calc_length_appropriateness sample_response sample_prompt (Some 20) = Inr 1"
  unfolding calc_length_appropriateness_def
  by (simp add: sample_strings sample_strings2 arith_eval fl_eval split del: if_split
      cong: and_then_weak_cong let_weak_cong if_weak_cong)

lemma sample_repetition:
  "calc_repetition_penalty sample_response = Inr 1"
  unfolding calc_repetition_penalty_def
  by (simp add: sample_strings sample_strings2 arith_eval fl_eval split del: if_split
      cong: and_then_weak_cong let_weak_cong if_weak_cong)

lemma sample_structural:
  "calc_structural_richness sample_response = Inr (7926335344172073 / 36028797018963968)"
  unfolding calc_structural_richness_def
  by (simp add: sample_strings sample_strings2 arith_eval fl_eval split del: if_split
      cong: and_then_weak_cong let_weak_cong if_weak_cong)

lemma sample_metrics:
  "calculate_all sample_response sample_prompt (Some 20) =
     Inr \<lparr>coherence_score = 3007203591182859 / 9007199254740992,
          completeness_score = 5692549928996307 / 9007199254740992,
          length_appropriateness = 1,
          repetition_penalty = 1,
          structural_richness = 7926335344172073 / 36028797018963968,
          overall_score = 2729481614161679 / 4503599627370496\<rparr>"
  unfolding calculate_all_def sample_coherence sample_completeness sample_length
    sample_repetition sample_structural weighted_sum_def
  by (simp add: arith_eval fl_eval split del: if_split
      cong: and_then_weak_cong let_weak_cong if_weak_cong)

subsection \<open>Coherence\<close>

lemma fl_nonneg: "0 \<le> x \<Longrightarrow> 0 \<le> fl x"
  using fl_mono[of 0 x] by simp

lemma fl_le_one: "x \<le> 1 \<Longrightarrow> fl x \<le> 1"
  using fl_mono[of x 1] by (simp add: fl_one)

lemma re_split_aux_no_terminator:
  assumes "\<forall>c \<in> set cur. \<not> is_terminator c"
  shows "\<forall>p \<in> set (re_split_aux in_run cur cs). \<forall>c \<in> set p. \<not> is_terminator c"
  using assms
proof (induction cs arbitrary: in_run cur)
  case Nil
  then show ?case by simp
next
  case (Cons c cs)
  show ?case
  proof (cases "is_terminator c")
    case True
    have e: "\<forall>c \<in> set ([] :: string). \<not> is_terminator c" by simp
    show ?thesis
      using True Cons.IH[OF Cons.prems, of True] Cons.IH[OF e, of True] Cons.prems
      by auto
  next
    case False
    then have "\<forall>x \<in> set (c # cur). \<not> is_terminator x" using Cons.prems by simp
    from Cons.IH[OF this, of False] False show ?thesis by simp
  qed
qed

lemma set_strip: "set (strip s) \<subseteq> set s"
proof
  fix c assume "c \<in> set (strip s)"
  then have "c \<in> set (dropWhile is_space (rev (dropWhile is_space s)))"
    by (simp add: strip_def)
  then have "c \<in> set (rev (dropWhile is_space s))" by (rule set_dropWhileD)
  then have "c \<in> set (dropWhile is_space s)" by simp
  then show "c \<in> set s" by (rule set_dropWhileD)
qed

lemma no_proper_ending:
  assumes "s \<in> set (stripped_sentences t)"
  shows "\<not> proper_ending s"
proof
  assume pe: "proper_ending s"
  from assms obtain p where p: "p \<in> set (re_split_sentences t)" "s = strip p"
    by (auto simp: stripped_sentences_def)
  have "\<forall>c \<in> set p. \<not> is_terminator c"
    using re_split_aux_no_terminator[of "[]" False t] p(1)
    by (simp add: re_split_sentences_def)
  then have "\<forall>c \<in> set s. \<not> is_terminator c"
    using set_strip[of p] p(2) by auto
  moreover from pe have "s \<noteq> []" "is_terminator (last s)"
    by (simp_all add: proper_ending_def is_terminator_def)
  ultimately show False using last_in_set by blast
qed

lemma proper_endings_none: "filter proper_ending (stripped_sentences t) = []"
  by (simp add: filter_empty_conv no_proper_ending)

lemma fmul_le_weight:
  assumes "0 \<le> x" "x \<le> 1" "0 \<le> w"
  shows "0 \<le> fmul x w \<and> fmul x w \<le> fl w"
proof -
  have "x * w \<le> w" using assms by (simp add: mult_left_le_one_le)
  moreover have "0 \<le> x * w" using assms by simp
  ultimately show ?thesis
    unfolding fmul_def using fl_mono[of "x * w" w] fl_nonneg[of "x * w"] by simp
qed

lemma weights_0_6: "fl (fl (fl (3 / 10)) + fl (3 / 10)) = fl (6 / 10)"
  by (simp add: fl_eval split del: if_split)

lemma coherence_sum_le:
  assumes "0 \<le> ts" "ts \<le> 1" "0 \<le> vs" "vs \<le> 1"
  shows "fadd (fadd (fadd 0 (fmul 0 (fl (4 / 10)))) (fmul ts (fl (3 / 10))))
           (fmul vs (fl (3 / 10))) \<le> fl (6 / 10)"
proof -
  have w: "0 \<le> fl (3 / 10)" by (rule fl_nonneg) simp
  have a: "fmul ts (fl (3 / 10)) \<le> fl (fl (3 / 10))"
    using fmul_le_weight[OF assms(1,2) w] by simp
  have b: "fmul vs (fl (3 / 10)) \<le> fl (fl (3 / 10))"
    using fmul_le_weight[OF assms(3,4) w] by simp
  have z: "fadd 0 (fmul 0 (fl (4 / 10))) = 0" by (simp add: fadd_def fmul_def)
  have "fadd 0 (fmul ts (fl (3 / 10))) \<le> fl (fl (fl (3 / 10)))"
    unfolding fadd_def using a by (intro fl_mono) simp
  then have "fadd 0 (fmul ts (fl (3 / 10))) + fmul vs (fl (3 / 10))
      \<le> fl (fl (fl (3 / 10))) + fl (fl (3 / 10))"
    using b by simp
  then have "fadd (fadd 0 (fmul ts (fl (3 / 10)))) (fmul vs (fl (3 / 10)))
      \<le> fl (fl (fl (fl (3 / 10))) + fl (fl (3 / 10)))"
    unfolding fadd_def[of "fl (0 + fmul ts (fl (3 / 10)))"] fadd_def[of 0]
    by (intro fl_mono) (simp add: fadd_def)
  also have "\<dots> = fl (6 / 10)" by (simp add: fl_eval split del: if_split)
  finally show ?thesis unfolding z .
qed

lemma fadd_nonneg: "0 \<le> x \<Longrightarrow> 0 \<le> y \<Longrightarrow> 0 \<le> fadd x y"
  unfolding fadd_def by (rule fl_nonneg) simp

lemma fmul_nonneg: "0 \<le> x \<Longrightarrow> 0 \<le> y \<Longrightarrow> 0 \<le> fmul x y"
  unfolding fmul_def by (rule fl_nonneg) simp

text \<open>The score of a text with at least two sentences, with the bounds of its components.\<close>

lemma coherence_value:
  assumes "10 \<le> length (strip t)" and "2 \<le> length (stripped_sentences t)"
  shows "\<exists>ps ts vs. 0 \<le> ps \<and> ps \<le> 1 \<and> 0 \<le> ts \<and> ts \<le> 1 \<and> 0 \<le> vs \<and> vs \<le> 1
           \<and> (filter proper_ending (stripped_sentences t) = [] \<longrightarrow> ps = 0)
           \<and> calc_coherence_score t =
               Inr (min (fadd (fadd (fadd 0 (fmul ps (fl (4 / 10)))) (fmul ts (fl (3 / 10))))
                           (fmul vs (fl (3 / 10)))) 1)"
proof -
  let ?S = "stripped_sentences t"
  let ?n = "int (length ?S)"
  define ps where "ps = min (fl (of_int (int (length (filter proper_ending ?S))) / of_int ?n)) 1"
  define ts where "ts = min (fl (float_of_int
      (int (length (filter (\<lambda>w. contains w (lower t)) transitions)))
      / max (fmul (float_of_int ?n) (fl (3 / 10))) 1)) 1"
  define avg where "avg = fl (of_int (sum_list (map (\<lambda>s. int (length s)) ?S)) / of_int ?n)"
  define var where "var = fl (float_sum (map (\<lambda>l. let d = fsub (float_of_int l) avg in fmul d d)
      (map (\<lambda>s. int (length s)) ?S)) / float_of_int ?n)"
  define vs where "vs = fsub 1 (min (fl (\<bar>fsub var 250\<bar> / 250)) 1)"
  have n: "?n \<noteq> 0" "1 < length ?S" "\<not> length ?S < 2" "?S \<noteq> []" using assms(2) by auto
  have t: "t \<noteq> []" "\<not> length (strip t) < 10" using assms(1) by (auto simp: strip_def)
  have fn: "float_of_int ?n \<noteq> 0" using n(1) by (simp add: float_of_int_eq_0_iff)
  have mx: "max (fmul (float_of_int ?n) (fl (3 / 10))) 1 \<noteq> 0" by (simp add: max_def)
  have ps: "0 \<le> ps" "ps \<le> 1"
    unfolding ps_def by (auto intro!: fl_nonneg simp: min_def)
  have "0 \<le> float_of_int (int (length (filter (\<lambda>w. contains w (lower t)) transitions)))"
    unfolding float_of_int_def by (rule fl_nonneg) simp
  moreover have "0 < max (fmul (float_of_int ?n) (fl (3 / 10))) 1" by (simp add: max_def)
  ultimately have ts: "0 \<le> ts" "ts \<le> 1"
    unfolding ts_def by (auto intro!: fl_nonneg simp: min_def)
  have m: "0 \<le> min (fl (\<bar>fsub var 250\<bar> / 250)) 1" "min (fl (\<bar>fsub var 250\<bar> / 250)) 1 \<le> 1"
    by (auto intro!: fl_nonneg simp: min_def)
  have vs: "0 \<le> vs" "vs \<le> 1"
    unfolding vs_def fsub_def using m by (auto intro!: fl_nonneg fl_le_one)
  have p0: "filter proper_ending ?S = [] \<longrightarrow> ps = 0"
    by (simp add: ps_def)
  have "calc_coherence_score t =
      Inr (min (fadd (fadd (fadd 0 (fmul ps (fl (4 / 10)))) (fmul ts (fl (3 / 10))))
                  (fmul vs (fl (3 / 10)))) 1)"
    unfolding calc_coherence_score_def Let_def
    using n t fn mx
    by (simp add: and_then_def int_truediv_def fdiv_def ps_def ts_def vs_def var_def avg_def
        Let_def o_def)
  with ps ts vs p0 show ?thesis by blast
qed

lemma coherence_le_0_6:
  assumes "10 \<le> length (strip t)" and "2 \<le> length (stripped_sentences t)"
  shows "\<exists>s. calc_coherence_score t = Inr s \<and> 0 \<le> s \<and> s \<le> fl (6 / 10)"
proof -
  from coherence_value[OF assms] obtain ps ts vs where
    b: "0 \<le> ts" "ts \<le> 1" "0 \<le> vs" "vs \<le> 1"
    and p: "filter proper_ending (stripped_sentences t) = [] \<longrightarrow> ps = 0"
    and c: "calc_coherence_score t =
               Inr (min (fadd (fadd (fadd 0 (fmul ps (fl (4 / 10)))) (fmul ts (fl (3 / 10))))
                           (fmul vs (fl (3 / 10)))) 1)"
    by blast
  have ps: "ps = 0" using p proper_endings_none by simp
  let ?s = "fadd (fadd (fadd 0 (fmul 0 (fl (4 / 10)))) (fmul ts (fl (3 / 10))))
              (fmul vs (fl (3 / 10)))"
  have le: "?s \<le> fl (6 / 10)" using b by (rule coherence_sum_le)
  have w: "0 \<le> fl (3 / 10)" by (rule fl_nonneg) simp
  have "0 \<le> fmul ts (fl (3 / 10))" "0 \<le> fmul vs (fl (3 / 10))"
    using fmul_le_weight[OF b(1,2) w] fmul_le_weight[OF b(3,4) w] by simp_all
  then have ge: "0 \<le> ?s"
    using b by (intro fadd_nonneg fmul_nonneg) (simp_all add: fl_nonneg)
  have "min ?s 1 \<le> fl (6 / 10)" "0 \<le> min ?s 1" using le ge by (auto simp: min_def)
  then show ?thesis unfolding c ps by simp
qed

lemma nonspace_le_strip: "length (filter (\<lambda>c. \<not> is_space c) t) \<le> length (strip t)"
proof -
  have d: "filter (\<lambda>c. \<not> is_space c) (dropWhile is_space xs) = filter (\<lambda>c. \<not> is_space c) xs"
    for xs by (induction xs) simp_all
  have "filter (\<lambda>c. \<not> is_space c) (strip t) = filter (\<lambda>c. \<not> is_space c) t"
    unfolding strip_def by (simp add: d rev_filter[symmetric])
  then have "length (filter (\<lambda>c. \<not> is_space c) t) = length (filter (\<lambda>c. \<not> is_space c) (strip t))"
    by simp
  also have "\<dots> \<le> length (strip t)" by (rule length_filter_le)
  finally show ?thesis .
qed

text \<open>
  C9: for every text with at least 10 characters that are not whitespace and at least two
  non-empty sentences, no sentence ends in \<^verbatim>\<open>.\<close>, \<^verbatim>\<open>!\<close> or \<^verbatim>\<open>?\<close> (the split removed
  them), so the punctuation component is 0, and the coherence score is at most the float 0.6.
\<close>

theorem coherence_capped_at_0_6:
  assumes "10 \<le> length (filter (\<lambda>c. \<not> is_space c) t)"
      and "2 \<le> length (stripped_sentences t)"
  shows "filter proper_ending (stripped_sentences t) = []
       \<and> (\<exists>s. calc_coherence_score t = Inr s \<and> s \<le> fl (6 / 10))"
proof -
  have "10 \<le> length (strip t)" using assms(1) nonspace_le_strip[of t] by simp
  from coherence_le_0_6[OF this assms(2)] proper_endings_none[of t] show ?thesis by blast
qed

lemma sample_nonspace: "length (filter (\<lambda>c. \<not> is_space c) sample_response) = 62"
  by code_simp

theorem coherence_capped_at_0_6_witness:
  "10 \<le> length (filter (\<lambda>c. \<not> is_space c) sample_response)
   \<and> 2 \<le> length (stripped_sentences sample_response)
   \<and> filter proper_ending (stripped_sentences sample_response) = []
   \<and> calc_coherence_score sample_response = Inr (3007203591182859 / 9007199254740992)
   \<and> 3007203591182859 / 9007199254740992 \<le> fl (6 / 10)"
proof -
  have h: "10 \<le> length (filter (\<lambda>c. \<not> is_space c) sample_response)"
      "2 \<le> length (stripped_sentences sample_response)"
    by (simp_all add: sample_nonspace sample_strings)
  from coherence_capped_at_0_6[OF h] sample_coherence h show ?thesis by auto
qed

subsection \<open>Repetition\<close>

lemma split_ws_aux_space:
  assumes "is_space c"
  shows "split_ws_aux cur (xs @ c # ys) = split_ws_aux cur xs @ split_ws_aux [] ys"
  using assms by (induction xs arbitrary: cur) simp_all

lemma split_ws_space:
  "is_space c \<Longrightarrow> split_ws (xs @ c # ys) = split_ws xs @ split_ws ys"
  by (simp add: split_ws_def split_ws_aux_space)

lemma split_ws_aux_nonempty:
  assumes "cur \<noteq> [] \<or> (\<exists>c \<in> set xs. \<not> is_space c)"
  shows "split_ws_aux cur xs \<noteq> []"
  using assms by (induction xs arbitrary: cur) auto

lemma space_facts: "is_space CHR '' ''" "lower_char CHR '' '' = CHR '' ''"
  "\<not> is_space (lower_char CHR ''.'')"
  by code_simp+

lemma words_of_repeated:
  "split_ws (lower (join_sentences (replicate n s)))
     = concat (replicate n (split_ws (lower (s @ ''.''))))"
proof (induction n)
  case 0
  show ?case by (simp add: join_sentences_def lower_def split_ws_def)
next
  case (Suc n)
  have "lower (join_sentences (replicate (Suc n) s))
      = lower (s @ ''.'') @ CHR '' '' # lower (join_sentences (replicate n s))"
    by (simp add: join_sentences_def lower_def space_facts)
  then show ?case
    using Suc by (simp add: split_ws_space space_facts)
qed

lemma sentence_words_nonempty: "split_ws (lower (s @ ''.'')) \<noteq> []"
  unfolding split_ws_def
  by (rule split_ws_aux_nonempty) (simp add: lower_def space_facts)

lemma nth_concat_replicate:
  assumes "j < n * length ws"
  shows "concat (replicate n ws) ! j = ws ! (j mod length ws)"
  using assms
proof (induction n arbitrary: j)
  case 0
  then show ?case by simp
next
  case (Suc n)
  show ?case
  proof (cases "j < length ws")
    case True
    then show ?thesis by (simp add: nth_append)
  next
    case False
    then have "j - length ws < n * length ws" using Suc.prems by simp
    from Suc.IH[OF this] False show ?thesis
      by (simp add: nth_append le_mod_geq)
  qed
qed

lemma take3_drop:
  assumes "i + 3 \<le> length W"
  shows "take 3 (drop i W) = [W ! i, W ! (i + 1), W ! (i + 2)]"
proof -
  have "length (take 3 (drop i W)) = 3" using assms by simp
  moreover have "take 3 (drop i W) ! j = W ! (i + j)" if "j < 3" for j
    using that assms by simp
  ultimately show ?thesis
    by (intro nth_equalityI) (auto simp: nth_Cons' numeral_3_eq_3 less_Suc_eq)
qed

lemma ngrams3_alt: "ngrams3 W = map (\<lambda>i. take 3 (drop i W)) [0 ..< length W - 2]"
proof -
  have "nat (int (length W) - 3 + 1) = length W - 2" by linarith
  then show ?thesis by (simp add: ngrams3_def)
qed

lemma ngrams_periodic:
  assumes "ws \<noteq> []"
  shows "card (set (ngrams3 (concat (replicate 10 ws)))) \<le> length ws"
    and "length (ngrams3 (concat (replicate 10 ws))) = 10 * length ws - 2"
proof -
  let ?k = "length ws"
  let ?W = "concat (replicate 10 ws)"
  have k: "0 < ?k" using assms by simp
  have len: "length ?W = 10 * ?k" by (simp add: length_concat sum_list_replicate)
  show l: "length (ngrams3 ?W) = 10 * ?k - 2"
    by (simp add: ngrams3_alt len)
  let ?g = "\<lambda>r. [ws ! (r mod ?k), ws ! ((r + 1) mod ?k), ws ! ((r + 2) mod ?k)]"
  have "set (ngrams3 ?W) \<subseteq> ?g ` {..<?k}"
  proof
    fix x assume "x \<in> set (ngrams3 ?W)"
    then obtain i where i: "i < 10 * ?k - 2" "x = take 3 (drop i ?W)"
      by (auto simp: ngrams3_alt len)
    have "i + 3 \<le> length ?W" using i(1) len by simp
    then have "x = [?W ! i, ?W ! (i + 1), ?W ! (i + 2)]"
      unfolding i(2) by (rule take3_drop)
    also have "\<dots> = [ws ! (i mod ?k), ws ! ((i + 1) mod ?k), ws ! ((i + 2) mod ?k)]"
      using i(1) by (simp add: nth_concat_replicate)
    also have "\<dots> = ?g (i mod ?k)"
      by (simp add: mod_Suc_eq mod_simps)
    finally show "x \<in> ?g ` {..<?k}" using k by auto
  qed
  then have "card (set (ngrams3 ?W)) \<le> card (?g ` {..<?k})"
    by (intro card_mono) auto
  also have "\<dots> \<le> card {..<?k}" by (rule card_image_le) simp
  finally show "card (set (ngrams3 ?W)) \<le> ?k" by simp
qed

lemma repetition_value:
  assumes "20 \<le> length t" and "5 \<le> length (split_ws (lower t))"
  shows "\<exists>rr. fsub 1 (fl (of_int (int (card (set (ngrams3 (split_ws (lower t))))))
                         / of_int (int (length (ngrams3 (split_ws (lower t))))))) \<le> rr
           \<and> rr \<le> max (fsub 1 (fl (of_int (int (card (set (ngrams3 (split_ws (lower t))))))
                         / of_int (int (length (ngrams3 (split_ws (lower t)))))))) (fl (7 / 10))
           \<and> calc_repetition_penalty t =
               Inr (max (fsub 1 (min rr (fl (8 / 10)))) (fl (2 / 10)))"
proof -
  let ?W = "split_ws (lower t)"
  let ?rr0 = "fsub 1 (fl (of_int (int (card (set (ngrams3 ?W))))
                         / of_int (int (length (ngrams3 ?W)))))"
  let ?S = "long_sentences t"
  let ?sr = "fsub 1 (fl (of_int (int (card (set ?S))) / of_int (int (length ?S))))"
  define rr where "rr = (if 1 < length ?S then max ?rr0 (fmul ?sr (fl (7 / 10))) else ?rr0)"
  have t: "t \<noteq> []" "\<not> length t < 20" using assms(1) by auto
  have w: "\<not> length ?W < 5" using assms(2) by simp
  have n: "length (ngrams3 ?W) \<noteq> 0" "ngrams3 ?W \<noteq> []"
    using assms(2) by (auto simp: ngrams3_alt)
  have "calc_repetition_penalty t = Inr (max (fsub 1 (min rr (fl (8 / 10)))) (fl (2 / 10)))"
    unfolding calc_repetition_penalty_def Let_def
    using t w n by (simp add: and_then_def int_truediv_def rr_def)
  moreover have "?rr0 \<le> rr" by (simp add: rr_def)
  moreover have "rr \<le> max ?rr0 (fl (7 / 10))"
  proof (cases "1 < length ?S")
    case True
    have "card (set ?S) \<le> length ?S" by (rule card_length)
    then have "(of_nat (card (set ?S)) :: rat) \<le> of_nat (length ?S)" by (rule of_nat_mono)
    moreover have "(0 :: rat) < of_nat (length ?S)" using True by (cases ?S) simp_all
    ultimately have q: "(of_nat (card (set ?S)) :: rat) / of_nat (length ?S) \<le> 1"
      by (simp add: pos_divide_le_eq)
    have q0: "0 \<le> (of_nat (card (set ?S)) :: rat) / of_nat (length ?S)" by simp
    have f: "0 \<le> fl (of_nat (card (set ?S)) / of_nat (length ?S))"
        "fl (of_nat (card (set ?S)) / of_nat (length ?S)) \<le> 1"
      using q q0 by (auto intro: fl_nonneg fl_le_one)
    have sr: "0 \<le> ?sr" "?sr \<le> 1"
      unfolding fsub_def using f by (auto intro!: fl_nonneg fl_le_one)
    have w7: "0 \<le> fl (7 / 10)" by (rule fl_nonneg) simp
    have "fmul ?sr (fl (7 / 10)) \<le> fl (fl (7 / 10))"
      using fmul_le_weight[OF sr w7] by simp
    also have "\<dots> = fl (7 / 10)" by (simp add: fl_eval split del: if_split)
    finally show ?thesis using True by (simp add: rr_def max_def)
  next
    case False
    then show ?thesis by (simp add: rr_def)
  qed
  ultimately show ?thesis by blast
qed

lemma repetition_constants:
  "fl (1 / 8) = 1 / 8" "fl (7 / 8) = 7 / 8" "fl (8 / 10) \<le> 7 / 8"
  "max (fsub 1 (fl (8 / 10))) (fl (2 / 10)) = fl (2 / 10)"
  by (simp_all add: fsub_def fl_eval split del: if_split)

lemma length_join_replicate: "length (join_sentences (replicate n s)) = n * (length s + 2)"
  by (induction n) (simp_all add: join_sentences_def)

text \<open>One sentence ten times: at most one 3-gram in eight is new, and the score is the
  lowest there is.\<close>

lemma repeated_sentence_floor:
  "calc_repetition_penalty (join_sentences (replicate 10 s)) = Inr (fl (2 / 10))"
proof -
  let ?T = "join_sentences (replicate 10 s)"
  let ?ws = "split_ws (lower (s @ ''.''))"
  let ?k = "length ?ws"
  have W: "split_ws (lower ?T) = concat (replicate 10 ?ws)" by (rule words_of_repeated)
  have k: "1 \<le> ?k" using sentence_words_nonempty[of s] by (cases ?ws) auto
  have lenW: "length (split_ws (lower ?T)) = 10 * ?k"
    unfolding W by (simp add: length_concat sum_list_replicate)
  have a1: "20 \<le> length ?T" by (simp add: length_join_replicate)
  have a2: "5 \<le> length (split_ws (lower ?T))" using k lenW by simp
  from repetition_value[OF a1 a2] obtain rr where
    rr: "fsub 1 (fl (of_int (int (card (set (ngrams3 (split_ws (lower ?T))))))
                         / of_int (int (length (ngrams3 (split_ws (lower ?T))))))) \<le> rr"
    and v: "calc_repetition_penalty ?T = Inr (max (fsub 1 (min rr (fl (8 / 10)))) (fl (2 / 10)))"
    by blast
  let ?u = "card (set (ngrams3 (concat (replicate 10 ?ws))))"
  have u: "?u \<le> ?k" and n: "length (ngrams3 (concat (replicate 10 ?ws))) = 10 * ?k - 2"
    using ngrams_periodic[OF sentence_words_nonempty[of s]] by simp_all
  have "8 * ?u \<le> 10 * ?k - 2" using u k by simp
  then have "(of_nat (8 * ?u) :: rat) \<le> of_nat (10 * ?k - 2)" by (rule of_nat_mono)
  moreover have "(0 :: rat) < of_nat (10 * ?k - 2)" using k by simp
  ultimately have q: "(of_nat ?u :: rat) / of_nat (10 * ?k - 2) \<le> 1 / 8"
    by (simp add: field_simps)
  have "fl (of_nat ?u / of_nat (10 * ?k - 2)) \<le> fl (1 / 8)" using q by (rule fl_mono)
  then have "7 / 8 \<le> 1 - fl (of_nat ?u / of_nat (10 * ?k - 2))"
    by (simp add: repetition_constants)
  then have "fl (7 / 8) \<le> fl (1 - fl (of_nat ?u / of_nat (10 * ?k - 2)))" by (rule fl_mono)
  then have "7 / 8 \<le> rr"
    using rr unfolding W n fsub_def by (simp add: repetition_constants)
  then have m: "min rr (fl (8 / 10)) = fl (8 / 10)"
    using repetition_constants(3) by (simp add: min_def)
  show ?thesis unfolding v m repetition_constants(4) ..
qed

text \<open>No text scores below the floor.\<close>

lemma repetition_at_least_floor:
  "\<exists>r. calc_repetition_penalty t = Inr r \<and> fl (2 / 10) \<le> r"
proof -
  have c: "fl (2 / 10) \<le> fl (7 / 10)" "fl (2 / 10) \<le> fl (8 / 10)"
    by (rule fl_mono, simp)+
  show ?thesis
    using c
    by (auto simp: calc_repetition_penalty_def and_then_def int_truediv_def Let_def)
qed

lemma split_ws_aux_length:
  "length (split_ws_aux cur s) \<le> length s + (if cur = [] then 0 else 1)"
proof (induction s arbitrary: cur)
  case Nil
  then show ?case by simp
next
  case (Cons a s)
  have i1: "length (split_ws_aux [] s) \<le> length s" using Cons.IH[of "[]"] by simp
  have i2: "length (split_ws_aux (a # cur) s) \<le> length s + 1"
    using Cons.IH[of "a # cur"] by simp
  show ?case using i1 i2 by auto
qed

lemma split_ws_length: "length (split_ws s) \<le> length s"
  using split_ws_aux_length[of "[]" s] by (simp add: split_ws_def)

lemma ngrams3_length: "length (ngrams3 (split_ws (lower t))) \<le> length t"
  using split_ws_length[of "lower t"] by (simp add: ngrams3_alt lower_def)

lemma cap_constants:
  "fl (8 / 10) \<le> fl (1 - fl (1 / 5))"
  "max (fl (1 - fl (1 / 5 + 1 / (5 * 2 ^ 40)))) (fl (7 / 10)) \<le> fl (8 / 10)"
  "fl (2 / 10) < fl (1 - max (fl (1 - fl (1 / 5 + 1 / (5 * 2 ^ 40)))) (fl (7 / 10)))"
  by (simp_all add: fl_eval split del: if_split)

text \<open>A text too short to be analysed scores 0.7 or 0.8.\<close>

lemma repetition_short:
  assumes "length t < 20 \<or> length (split_ws (lower t)) < 5"
  shows "\<exists>r. calc_repetition_penalty t = Inr r \<and> fl (2 / 10) < r"
proof -
  have c: "fl (2 / 10) < fl (7 / 10)" "fl (2 / 10) < fl (8 / 10)"
    by (simp_all add: fl_eval split del: if_split)
  show ?thesis using assms c
    by (auto simp: calc_repetition_penalty_def Let_def)
qed

text \<open>At most one 3-gram in five is new: the ratio reaches the cap and the score is the
  floor.\<close>

lemma repetition_at_cap:
  assumes "20 \<le> length t" and "5 \<le> length (split_ws (lower t))"
      and "5 * card (set (ngrams3 (split_ws (lower t)))) \<le> length (ngrams3 (split_ws (lower t)))"
  shows "calc_repetition_penalty t = Inr (fl (2 / 10))"
proof -
  let ?N = "ngrams3 (split_ws (lower t))"
  from repetition_value[OF assms(1,2)] obtain rr where
    rr: "fsub 1 (fl (of_int (int (card (set ?N))) / of_int (int (length ?N)))) \<le> rr"
    and v: "calc_repetition_penalty t = Inr (max (fsub 1 (min rr (fl (8 / 10)))) (fl (2 / 10)))"
    by blast
  have n: "0 < length ?N" using assms(2) by (simp add: ngrams3_alt)
  have "(of_nat (5 * card (set ?N)) :: rat) \<le> of_nat (length ?N)"
    using assms(3) by (rule of_nat_mono)
  moreover have "(0 :: rat) < of_nat (length ?N)" using n by simp
  ultimately have "(of_nat (card (set ?N)) :: rat) / of_nat (length ?N) \<le> 1 / 5"
    by (simp add: pos_divide_le_eq)
  then have "fl (of_nat (card (set ?N)) / of_nat (length ?N)) \<le> fl (1 / 5)" by (rule fl_mono)
  then have "1 - fl (1 / 5) \<le> 1 - fl (of_nat (card (set ?N)) / of_nat (length ?N))" by simp
  then have "fl (1 - fl (1 / 5)) \<le> fl (1 - fl (of_nat (card (set ?N)) / of_nat (length ?N)))"
    by (rule fl_mono)
  then have "fl (8 / 10) \<le> rr" using rr cap_constants(1) unfolding fsub_def by simp
  then have m: "min rr (fl (8 / 10)) = fl (8 / 10)" by (simp add: min_def)
  show ?thesis unfolding v m repetition_constants(4) ..
qed

text \<open>More than one 3-gram in five is new: the score is above the floor.\<close>

lemma repetition_below_cap:
  assumes "20 \<le> length t" and "5 \<le> length (split_ws (lower t))"
      and "length (ngrams3 (split_ws (lower t))) < 5 * card (set (ngrams3 (split_ws (lower t))))"
      and "length t \<le> 2 ^ 40"
  shows "\<exists>r. calc_repetition_penalty t = Inr r \<and> fl (2 / 10) < r"
proof -
  let ?N = "ngrams3 (split_ws (lower t))"
  let ?q = "fl (of_nat (card (set ?N)) / of_nat (length ?N))"
  let ?b = "fl (1 / 5 + 1 / (5 * 2 ^ 40))"
  from repetition_value[OF assms(1,2)] obtain rr where
    hi: "rr \<le> max (fsub 1 (fl (of_int (int (card (set ?N))) / of_int (int (length ?N))))) (fl (7 / 10))"
    and v: "calc_repetition_penalty t = Inr (max (fsub 1 (min rr (fl (8 / 10)))) (fl (2 / 10)))"
    by blast
  have n: "0 < length ?N" using assms(2) by (simp add: ngrams3_alt)
  have nb: "length ?N \<le> 2 ^ 40" using ngrams3_length[of t] assms(4) by simp
  have "length ?N + 1 \<le> 5 * card (set ?N)" using assms(3) by simp
  then have "(of_nat (length ?N + 1) :: rat) \<le> of_nat (5 * card (set ?N))" by (rule of_nat_mono)
  then have a: "(of_nat (length ?N) :: rat) + 1 \<le> 5 * of_nat (card (set ?N))" by simp
  have "(of_nat (length ?N) :: rat) \<le> of_nat (2 ^ 40)" using nb by (rule of_nat_mono)
  then have b: "(of_nat (length ?N) :: rat) \<le> 2 ^ 40" by simp
  have np: "(0 :: rat) < of_nat (length ?N)" using n by simp
  have "(1 / 5 + 1 / (5 * 2 ^ 40)) * (of_nat (length ?N) :: rat) \<le> of_nat (card (set ?N))"
    using a b by (simp add: algebra_simps)
  then have "1 / 5 + 1 / (5 * 2 ^ 40) \<le> (of_nat (card (set ?N)) :: rat) / of_nat (length ?N)"
    using np by (simp add: pos_le_divide_eq)
  then have "?b \<le> ?q" by (rule fl_mono)
  then have "1 - ?q \<le> 1 - ?b" by simp
  then have "fl (1 - ?q) \<le> fl (1 - ?b)" by (rule fl_mono)
  then have "rr \<le> max (fl (1 - ?b)) (fl (7 / 10))"
    using hi unfolding fsub_def by (simp add: max_def split: if_splits)
  then have r1: "rr \<le> max (fl (1 - ?b)) (fl (7 / 10))" .
  then have "rr \<le> fl (8 / 10)" using cap_constants(2) by (rule order_trans)
  then have m: "min rr (fl (8 / 10)) = rr" by (simp add: min_def)
  have "1 - max (fl (1 - ?b)) (fl (7 / 10)) \<le> 1 - rr" using r1 by simp
  then have "fl (1 - max (fl (1 - ?b)) (fl (7 / 10))) \<le> fl (1 - rr)" by (rule fl_mono)
  with cap_constants(3) have "fl (2 / 10) < fsub 1 rr" unfolding fsub_def by (rule less_le_trans)
  then show ?thesis unfolding v m by (simp add: max_def)
qed

lemma variants_strings:
  "join_sentences echo_variants \<noteq> []"
  "length (join_sentences echo_variants) = 310"
  "length (split_ws (lower (join_sentences echo_variants))) = 150"
  "ngrams3 (split_ws (lower (join_sentences echo_variants))) \<noteq> []"
  "card (set (ngrams3 (split_ws (lower (join_sentences echo_variants))))) = 29"
  "length (ngrams3 (split_ws (lower (join_sentences echo_variants)))) = 148"
  "length (long_sentences (join_sentences echo_variants)) = 10"
  "card (set (long_sentences (join_sentences echo_variants))) = 10"
  by code_simp+

lemma variants_shape:
  "length echo_variants = 10" "distinct echo_variants"
  "map length echo_variants = replicate 10 (length echo_sentence)"
  by code_simp+

lemma variants_repetition:
  "calc_repetition_penalty (join_sentences echo_variants) = Inr (fl (2 / 10))"
  unfolding calc_repetition_penalty_def
  by (simp add: variants_strings arith_eval fl_eval split del: if_split
      cong: and_then_weak_cong let_weak_cong if_weak_cong)

text \<open>
  C8, as stated, fails: the penalty is floored at 0.2, and a text of ten distinct sentences
  reaches the floor too when at least four 3-grams in five repeat. The ten sentences of
  \<open>echo_variants\<close> are distinct, as long as \<open>echo_sentence\<close>, and their text scores 0.2,
  as the text of \<open>echo_sentence\<close> repeated ten times does: not strictly lower.
\<close>

theorem repeated_equals_distinct_counterexample:
  "length echo_variants = 10 \<and> distinct echo_variants
   \<and> map length echo_variants = replicate 10 (length echo_sentence)
   \<and> calc_repetition_penalty (join_sentences (replicate 10 echo_sentence)) = Inr (fl (2 / 10))
   \<and> calc_repetition_penalty (join_sentences echo_variants) = Inr (fl (2 / 10))"
  using variants_shape variants_repetition repeated_sentence_floor[of echo_sentence] by simp

text \<open>A text that repeats no 3-gram of words and no sentence scores 1.0.\<close>

lemma repetition_units: "fsub 1 1 = 0" "fsub 1 0 = 1" "fmul 0 x = 0"
  by (simp_all add: fsub_def fmul_def fl_one)

lemma no_repetition_scores_one:
  assumes "20 \<le> length t" and "5 \<le> length (split_ws (lower t))"
      and "distinct (ngrams3 (split_ws (lower t)))" and "distinct (long_sentences t)"
  shows "calc_repetition_penalty t = Inr 1"
proof -
  let ?W = "split_ws (lower t)"
  let ?S = "long_sentences t"
  have t: "t \<noteq> []" "\<not> length t < 20" using assms(1) by auto
  have w: "\<not> length ?W < 5" using assms(2) by simp
  have n: "length (ngrams3 ?W) \<noteq> 0" "ngrams3 ?W \<noteq> []"
    using assms(2) by (auto simp: ngrams3_alt)
  have cn: "card (set (ngrams3 ?W)) = length (ngrams3 ?W)"
    using assms(3) by (rule distinct_card)
  have cs: "card (set ?S) = length ?S" using assms(4) by (rule distinct_card)
  have q: "fl (of_int (int (length (ngrams3 ?W))) / of_int (int (length (ngrams3 ?W)))) = 1"
    using n(1) by (simp add: fl_one)
  have q2: "1 < length ?S \<Longrightarrow> fl (of_int (int (length ?S)) / of_int (int (length ?S))) = 1"
    by (cases "long_sentences t") (simp_all add: fl_one)
  have c: "0 \<le> fl (8 / 10)" "fl (2 / 10) \<le> 1" by (auto intro: fl_nonneg fl_le_one)
  show ?thesis
    unfolding calc_repetition_penalty_def Let_def cn cs
    using t w n q q2 c
    by (simp add: and_then_def int_truediv_def repetition_units min_def max_def)
qed

lemma distinct_strings:
  "20 \<le> length (join_sentences distinct_sentences)"
  "5 \<le> length (split_ws (lower (join_sentences distinct_sentences)))"
  "distinct (ngrams3 (split_ws (lower (join_sentences distinct_sentences))))"
  "distinct (long_sentences (join_sentences distinct_sentences))"
  "length distinct_sentences = 10" "distinct distinct_sentences"
  "map length distinct_sentences = replicate 10 11"
  "length (join_sentences distinct_sentences) = 130"
  "length (ngrams3 (split_ws (lower (join_sentences distinct_sentences)))) = 38"
  "card (set (ngrams3 (split_ws (lower (join_sentences distinct_sentences))))) = 38"
  by code_simp+

text \<open>
  C8, amended: a text that consists of one sentence repeated 10 times scores the lowest
  repetition penalty there is, 0.2; so its score is lower than or equal to the score of
  every second text, ten distinct sentences of similar length or any other. For a second
  text of at most \<open>2 ^ 40\<close> characters the score of the first is strictly lower if and only
  if the second text has fewer than 20 characters, or fewer than 5 words, or more than one
  fifth of its 3-grams of words are distinct (the repetition ratio stays below the cap 0.8).
  Beyond \<open>2 ^ 40\<close> characters the rounding of the ratio can hide the difference.
\<close>

theorem repeated_sentence_never_higher:
  "\<exists>r1 r2. calc_repetition_penalty (join_sentences (replicate 10 s)) = Inr r1
         \<and> calc_repetition_penalty t = Inr r2
         \<and> r1 = fl (2 / 10) \<and> r1 \<le> r2
         \<and> (length t \<le> 2 ^ 40 \<longrightarrow>
              (r1 < r2 \<longleftrightarrow>
                 length t < 20 \<or> length (split_ws (lower t)) < 5
                 \<or> length (ngrams3 (split_ws (lower t)))
                     < 5 * card (set (ngrams3 (split_ws (lower t))))))"
proof -
  let ?P = "length t < 20 \<or> length (split_ws (lower t)) < 5
                 \<or> length (ngrams3 (split_ws (lower t)))
                     < 5 * card (set (ngrams3 (split_ws (lower t))))"
  note f = repeated_sentence_floor[of s]
  from repetition_at_least_floor[of t] obtain r2 where
    r2: "calc_repetition_penalty t = Inr r2" "fl (2 / 10) \<le> r2" by blast
  have "fl (2 / 10) < r2" if "length t \<le> 2 ^ 40" ?P
  proof (cases "length t < 20 \<or> length (split_ws (lower t)) < 5")
    case True
    from repetition_short[OF True] r2(1) show ?thesis by simp
  next
    case False
    then have "20 \<le> length t" "5 \<le> length (split_ws (lower t))"
      "length (ngrams3 (split_ws (lower t))) < 5 * card (set (ngrams3 (split_ws (lower t))))"
      using that(2) by auto
    from repetition_below_cap[OF this that(1)] r2(1) show ?thesis by simp
  qed
  moreover have "r2 = fl (2 / 10)" if "\<not> ?P"
  proof -
    from that have "20 \<le> length t" "5 \<le> length (split_ws (lower t))"
      "5 * card (set (ngrams3 (split_ws (lower t)))) \<le> length (ngrams3 (split_ws (lower t)))"
      by auto
    from repetition_at_cap[OF this] r2(1) show ?thesis by simp
  qed
  ultimately have "length t \<le> 2 ^ 40 \<longrightarrow> (fl (2 / 10) < r2 \<longleftrightarrow> ?P)" by auto
  with f r2 show ?thesis by blast
qed

theorem repeated_sentence_never_higher_witness:
  "length distinct_sentences = 10 \<and> distinct distinct_sentences
   \<and> map length distinct_sentences = replicate 10 11
   \<and> length (join_sentences distinct_sentences) = 130
   \<and> length (ngrams3 (split_ws (lower (join_sentences distinct_sentences)))) = 38
   \<and> card (set (ngrams3 (split_ws (lower (join_sentences distinct_sentences))))) = 38
   \<and> calc_repetition_penalty (join_sentences (replicate 10 echo_sentence)) = Inr (fl (2 / 10))
   \<and> calc_repetition_penalty (join_sentences distinct_sentences) = Inr 1
   \<and> fl (2 / 10) < 1"
proof -
  have v: "calc_repetition_penalty (join_sentences distinct_sentences) = Inr 1"
    using distinct_strings(1-4) by (rule no_repetition_scores_one)
  from repeated_sentence_never_higher[of echo_sentence "join_sentences distinct_sentences"]
  have "calc_repetition_penalty (join_sentences (replicate 10 echo_sentence)) = Inr (fl (2 / 10))"
    "fl (2 / 10) < 1"
    unfolding v by (auto simp: distinct_strings)
  with v distinct_strings show ?thesis by simp
qed

subsection \<open>The range of the scores\<close>

lemma float_of_int_nonneg: "0 \<le> n \<Longrightarrow> 0 \<le> float_of_int n"
  unfolding float_of_int_def by (rule fl_nonneg) simp

lemma coherence_range:
  assumes "calc_coherence_score t = Inr s"
  shows "0 \<le> s \<and> s \<le> 1"
proof (cases "10 \<le> length (strip t) \<and> 2 \<le> length (stripped_sentences t)")
  case True
  from coherence_value[of t] True obtain ps ts vs where
    b: "0 \<le> ps" "0 \<le> ts" "0 \<le> vs"
    and c: "calc_coherence_score t =
               Inr (min (fadd (fadd (fadd 0 (fmul ps (fl (4 / 10)))) (fmul ts (fl (3 / 10))))
                           (fmul vs (fl (3 / 10)))) 1)"
    by blast
  have "0 \<le> fadd (fadd (fadd 0 (fmul ps (fl (4 / 10)))) (fmul ts (fl (3 / 10))))
                           (fmul vs (fl (3 / 10)))"
    using b by (intro fadd_nonneg fmul_nonneg fl_nonneg) simp_all
  then show ?thesis using assms unfolding c by auto
next
  case False
  have k: "0 \<le> fl (3 / 10)" "fl (3 / 10) \<le> 1" "0 \<le> fl (1 / 2)" "fl (1 / 2) \<le> 1"
    by (auto intro: fl_nonneg fl_le_one)
  have "t \<noteq> [] \<Longrightarrow> \<not> length (strip t) < 10 \<Longrightarrow> length (stripped_sentences t) < 2"
    using False by simp
  then have "s = fl (3 / 10) \<or> s = fl (1 / 2)"
    using assms unfolding calc_coherence_score_def Let_def
    by (auto split: if_splits)
  with k show ?thesis by auto
qed

lemma completeness_range:
  assumes "calc_completeness_score t p = Inr s"
  shows "0 \<le> s \<and> s \<le> 1"
proof (cases "t = [] \<or> p = []")
  case True
  then show ?thesis using assms by (auto simp: calc_completeness_score_def)
next
  case False
  have m: "max (int (length p) * 2) 100 \<noteq> 0" "max (int (length p)) 50 \<noteq> 0" by (auto simp: max_def)
  have kc: "card (keyword_set p) = 0 \<longleftrightarrow> keyword_set p = {}"
    by (simp add: keyword_set_def)
  define s1 where "s1 = (if 0 < length (filter (\<lambda>qw. contains qw (lower p)) question_words)
     then fadd 0 (fmul (min (fl (of_int (int (length t)) / of_int (max (int (length p) * 2) 100))) 1) (fl (4 / 10)))
     else 0)"
  define s2 where "s2 = (if keyword_set p \<noteq> {}
     then fadd s1 (fmul (fl (of_int (int (card (keyword_set p \<inter> keyword_set t))) / of_int (int (card (keyword_set p))))) (fl (4 / 10)))
     else s1)"
  define s3 where "s3 = fadd s2 (fmul (fl (min (fl (of_int (int (length t)) / of_int (max (int (length p)) 50))) 2 / 2)) (fl (2 / 10)))"
  have v: "calc_completeness_score t p = Inr (min s3 1)"
    unfolding calc_completeness_score_def Let_def using False m kc
    by (simp add: and_then_def int_truediv_def s1_def s2_def s3_def)
  have a: "0 \<le> fl (of_int (int (length t)) / of_int (max (int (length p) * 2) 100))"
    by (rule fl_nonneg) simp
  have s1: "0 \<le> s1" unfolding s1_def using a
    by (auto intro!: fadd_nonneg fmul_nonneg fl_nonneg)
  have s2: "0 \<le> s2" unfolding s2_def using s1
    by (auto intro!: fadd_nonneg fmul_nonneg fl_nonneg)
  have b: "0 \<le> fl (of_int (int (length t)) / of_int (max (int (length p)) 50))"
    by (rule fl_nonneg) simp
  have s3: "0 \<le> s3" unfolding s3_def using s2 b
    by (auto intro!: fadd_nonneg fmul_nonneg fl_nonneg)
  show ?thesis using assms s3 unfolding v by auto
qed

lemma length_appropriateness_range:
  assumes "calc_length_appropriateness t p tok = Inr s"
  shows "0 \<le> s \<and> s \<le> 1"
proof (cases "t = []")
  case True
  then show ?thesis using assms by (auto simp: calc_length_appropriateness_def)
next
  case False
  define imin where "imin = fmul (float_of_int (int (length p))) (fl (3 / 2))"
  have imin: "0 \<le> imin" unfolding imin_def
    by (intro fmul_nonneg fl_nonneg float_of_int_nonneg) simp_all
  have h: "0 \<le> fl (1 / 2)" "0 \<le> fl (8 / 10)" by (auto intro: fl_nonneg)
  from assms obtain s0 where
    s0: "(if imin \<le> of_int (int (length t)) \<and> int (length t) \<le> int (length p) * 8 then Inr 1
           else if of_int (int (length t)) < imin
             then fdiv (float_of_int (int (length t))) imin
           else (let excess = int (length t) - int (length p) * 8 in
                 and_then (int_truediv excess (int (length p) * 8))
                   (\<lambda>q. Inr (max (fl (1 / 2)) (fsub 1 (fmul q (fl (1 / 2)))))))) = Inr s0"
    and s: "s = min s0 1 \<or> s = min (fmul s0 (fl (8 / 10))) 1"
    using False unfolding calc_length_appropriateness_def Let_def imin_def[symmetric]
    by (auto simp: and_then_def split: sum.splits option.splits if_splits)
  have d: "0 \<le> fl (float_of_int (int (length t)) / imin)"
    using imin by (intro fl_nonneg divide_nonneg_nonneg float_of_int_nonneg) simp_all
  have "0 \<le> s0"
    using s0 h d
    by (auto simp: fdiv_def int_truediv_def and_then_def Let_def max_def split: if_splits)
  then have "0 \<le> fmul s0 (fl (8 / 10))" using h by (intro fmul_nonneg)
  with \<open>0 \<le> s0\<close> s show ?thesis by auto
qed

lemma repetition_range:
  assumes "calc_repetition_penalty t = Inr s"
  shows "0 \<le> s \<and> s \<le> 1"
proof (cases "20 \<le> length t \<and> 5 \<le> length (split_ws (lower t))")
  case True
  let ?W = "split_ws (lower t)"
  from repetition_value[of t] True obtain rr where
    rr: "fsub 1 (fl (of_int (int (card (set (ngrams3 ?W)))) / of_int (int (length (ngrams3 ?W))))) \<le> rr"
    and v: "calc_repetition_penalty t = Inr (max (fsub 1 (min rr (fl (8 / 10)))) (fl (2 / 10)))"
    by blast
  have n: "0 < length (ngrams3 ?W)" using True by (simp add: ngrams3_alt)
  have "card (set (ngrams3 ?W)) \<le> length (ngrams3 ?W)" by (rule card_length)
  then have "(of_nat (card (set (ngrams3 ?W))) :: rat) \<le> of_nat (length (ngrams3 ?W))"
    by (rule of_nat_mono)
  then have "(of_nat (card (set (ngrams3 ?W))) :: rat) / of_nat (length (ngrams3 ?W)) \<le> 1"
    using n by (simp add: field_simps)
  then have "fl (of_nat (card (set (ngrams3 ?W))) / of_nat (length (ngrams3 ?W))) \<le> 1"
    by (rule fl_le_one)
  then have "0 \<le> fsub 1 (fl (of_nat (card (set (ngrams3 ?W))) / of_nat (length (ngrams3 ?W))))"
    unfolding fsub_def by (intro fl_nonneg) simp
  then have r0: "0 \<le> rr" using rr by simp
  have k: "0 \<le> fl (8 / 10)" "0 \<le> fl (2 / 10)" "fl (2 / 10) \<le> 1"
    by (auto intro: fl_nonneg fl_le_one)
  have "0 \<le> min rr (fl (8 / 10))" using r0 k by simp
  then have "fsub 1 (min rr (fl (8 / 10))) \<le> 1" unfolding fsub_def by (intro fl_le_one) simp
  then show ?thesis using assms k unfolding v by auto
next
  case False
  have k: "0 \<le> fl (7 / 10)" "fl (7 / 10) \<le> 1" "0 \<le> fl (8 / 10)" "fl (8 / 10) \<le> 1"
    by (auto intro: fl_nonneg fl_le_one)
  have "t \<noteq> [] \<Longrightarrow> \<not> length t < 20 \<Longrightarrow> length (split_ws (lower t)) < 5"
    using False by simp
  then have "s = fl (7 / 10) \<or> s = fl (8 / 10)"
    using assms unfolding calc_repetition_penalty_def Let_def
    by (auto split: if_splits)
  with k show ?thesis by auto
qed

lemma structural_range:
  assumes "calc_structural_richness t = Inr s"
  shows "0 \<le> s \<and> s \<le> 1"
proof (cases "t = []")
  case True
  then show ?thesis using assms by (auto simp: calc_structural_richness_def)
next
  case False
  let ?P = "str_split [CHR 0x0A, CHR 0x0A] t"
  let ?L = "count_matches (match_list_item numbered_marker) t +
              count_matches (match_list_item bullet_marker) t +
              count_matches (match_list_item lettered_marker) t"
  define s1 where "s1 = (if 1 < length ?P
               then fadd 0 (fmul (min (fl (float_of_int (int (length ?P)) / 5)) 1) (fl (3 / 10)))
               else fadd 0 (fl (1 / 10)))"
  define s2 where "s2 = (if 0 < ?L
               then fadd s1 (fmul (min (fl (float_of_int (int ?L) / 3)) 1) (fl (3 / 10)))
               else s1)"
  define s3 where "s3 = fadd s2 (fmul (min (fl (float_of_int
      (int (sum_list (map (\<lambda>marker. count_sub marker t) formatting_markers))) / 5)) 1) (fl (2 / 10)))"
  define s4 where "s4 = (if 1 < length (stripped_sentences t)
      then fadd s3 (fmul (min (fl (of_int (int (card (set (starters_of (stripped_sentences t)))))
                               / of_int (max (int (length (stripped_sentences t))) 5))) 1) (fl (2 / 10)))
      else s3)"
  have m: "max (int (length (stripped_sentences t))) 5 \<noteq> 0" by (auto simp: max_def)
  have v: "calc_structural_richness t = Inr (min s4 1)"
    unfolding calc_structural_richness_def Let_def using False m
    by (simp add: and_then_def int_truediv_def s1_def s2_def s3_def s4_def)
  have f: "0 \<le> fl (float_of_int (int n) / c)" if "0 \<le> c" for n c
    using that by (intro fl_nonneg divide_nonneg_nonneg float_of_int_nonneg) simp_all
  have s1: "0 \<le> s1" unfolding s1_def
    by (auto intro!: fadd_nonneg fmul_nonneg fl_nonneg f simp del: of_nat_add)
  have s2: "0 \<le> s2" unfolding s2_def using s1
    by (auto intro!: fadd_nonneg fmul_nonneg fl_nonneg f simp del: of_nat_add)
  have s3: "0 \<le> s3" unfolding s3_def using s2
    by (auto intro!: fadd_nonneg fmul_nonneg fl_nonneg f)
  have "0 \<le> fl (of_int (int (card (set (starters_of (stripped_sentences t)))))
                               / of_int (max (int (length (stripped_sentences t))) 5))"
    by (rule fl_nonneg) simp
  then have s4: "0 \<le> s4" unfolding s4_def using s3
    by (auto intro!: fadd_nonneg fmul_nonneg fl_nonneg)
  show ?thesis using assms s4 unfolding v by auto
qed

lemma fadd_mono: "x \<le> x' \<Longrightarrow> y \<le> y' \<Longrightarrow> fadd x y \<le> fadd x' y'"
  unfolding fadd_def by (rule fl_mono) simp

lemma weighted_sum_range:
  assumes "0 \<le> c \<and> c \<le> 1" "0 \<le> p \<and> p \<le> 1" "0 \<le> l \<and> l \<le> 1"
    "0 \<le> r \<and> r \<le> 1" "0 \<le> s \<and> s \<le> 1"
  shows "0 \<le> weighted_sum c p l r s \<and> weighted_sum c p l r s \<le> 1"
proof -
  have w: "0 \<le> fl (25 / 100)" "0 \<le> fl (30 / 100)" "0 \<le> fl (15 / 100)"
    by (auto intro: fl_nonneg)
  note b = fmul_le_weight[of c "fl (25 / 100)"] fmul_le_weight[of p "fl (30 / 100)"]
    fmul_le_weight[of l "fl (15 / 100)"] fmul_le_weight[of r "fl (15 / 100)"]
    fmul_le_weight[of s "fl (15 / 100)"]
  have lo: "0 \<le> weighted_sum c p l r s"
    unfolding weighted_sum_def float_sum_def using assms w b
    by (auto intro!: fadd_nonneg)
  have "weighted_sum c p l r s \<le>
      fadd (fadd (fadd (fadd (fadd 0 (fl (fl (25 / 100)))) (fl (fl (30 / 100))))
        (fl (fl (15 / 100)))) (fl (fl (15 / 100)))) (fl (fl (15 / 100)))"
    unfolding weighted_sum_def float_sum_def using assms w b
    by (auto intro!: fadd_mono)
  also have "\<dots> = 1" by (simp add: fadd_def fl_eval split del: if_split)
  finally show ?thesis using lo by simp
qed

lemma calculate_all_fields:
  assumes "calculate_all t p tok = Inr m"
  shows "calc_coherence_score t = Inr (coherence_score m)"
    "calc_completeness_score t p = Inr (completeness_score m)"
    "calc_length_appropriateness t p tok = Inr (length_appropriateness m)"
    "calc_repetition_penalty t = Inr (repetition_penalty m)"
    "calc_structural_richness t = Inr (structural_richness m)"
    "overall_score m = weighted_sum (coherence_score m) (completeness_score m)
       (length_appropriateness m) (repetition_penalty m) (structural_richness m)"
  using assms unfolding calculate_all_def and_then_def
  by (auto split: sum.splits)

text \<open>Whenever the scorer returns, the five sub-scores and the overall score lie in [0, 1].\<close>

lemma calculate_all_range:
  assumes "calculate_all t p tok = Inr m"
  shows "0 \<le> coherence_score m \<and> coherence_score m \<le> 1"
    "0 \<le> completeness_score m \<and> completeness_score m \<le> 1"
    "0 \<le> length_appropriateness m \<and> length_appropriateness m \<le> 1"
    "0 \<le> repetition_penalty m \<and> repetition_penalty m \<le> 1"
    "0 \<le> structural_richness m \<and> structural_richness m \<le> 1"
    "0 \<le> overall_score m \<and> overall_score m \<le> 1"
proof -
  note f = calculate_all_fields[OF assms]
  show c: "0 \<le> coherence_score m \<and> coherence_score m \<le> 1"
    using f(1) by (rule coherence_range)
  show p: "0 \<le> completeness_score m \<and> completeness_score m \<le> 1"
    using f(2) by (rule completeness_range)
  show l: "0 \<le> length_appropriateness m \<and> length_appropriateness m \<le> 1"
    using f(3) by (rule length_appropriateness_range)
  show r: "0 \<le> repetition_penalty m \<and> repetition_penalty m \<le> 1"
    using f(4) by (rule repetition_range)
  show s: "0 \<le> structural_richness m \<and> structural_richness m \<le> 1"
    using f(5) by (rule structural_range)
  show "0 \<le> overall_score m \<and> overall_score m \<le> 1"
    unfolding f(6) using c p l r s by (rule weighted_sum_range)
qed

subsection \<open>The overall score\<close>

text \<open>A rounding moves a number by at most \<open>2\<^sup>-\<^sup>5\<^sup>3\<close> of its magnitude.\<close>

lemma rne_error: "\<bar>of_int (rne y) - y\<bar> \<le> 1 / 2"
proof -
  have "of_int \<lfloor>y\<rfloor> \<le> y" "y < of_int \<lfloor>y\<rfloor> + 1" by linarith+
  then show ?thesis by (auto simp: rne_def Let_def abs_le_iff)
qed

lemma fl_error_pos:
  assumes "0 < x"
  shows "\<bar>fl x - x\<bar> \<le> x / 2 ^ 53"
proof -
  define e where "e = ilog2 x - 52"
  define y where "y = x / 2 powi e"
  have pe: "(0::rat) < 2 powi e" by simp
  have flx: "fl x = of_int (rne y) * 2 powi e"
    using assms by (simp add: fl_def Let_def e_def y_def)
  have x: "x = y * 2 powi e" by (simp add: y_def)
  have lo: "(2::rat) powi (ilog2 x) = 2 ^ 52 * 2 powi e"
    by (simp add: e_def power_int_diff)
  have "2 ^ 52 * 2 powi e \<le> x" using ilog2_bounds[OF assms] unfolding lo by simp
  then have b: "2 powi e / 2 \<le> x / 2 ^ 53" by simp
  have "of_int (rne y) * 2 powi e - y * 2 powi e = (of_int (rne y) - y) * 2 powi e"
    by (simp add: algebra_simps)
  then have "fl x - x = (of_int (rne y) - y) * 2 powi e" using flx x by simp
  then have "\<bar>fl x - x\<bar> = \<bar>of_int (rne y) - y\<bar> * 2 powi e"
    by (simp add: abs_mult)
  also have "\<dots> \<le> 1 / 2 * 2 powi e" using rne_error[of y] pe by (intro mult_right_mono) simp_all
  also have "\<dots> \<le> x / 2 ^ 53" using b by simp
  finally show ?thesis .
qed

lemma fl_error: "\<bar>fl x - x\<bar> \<le> \<bar>x\<bar> / 2 ^ 53"
proof -
  consider "0 < x" | "x = 0" | "0 < - x" by linarith
  then show ?thesis
  proof cases
    case 1 then show ?thesis using fl_error_pos[of x] by simp
  next
    case 2 then show ?thesis by simp
  next
    case 3
    then show ?thesis using fl_error_pos[of "- x"] by (simp add: fl_minus abs_minus_commute)
  qed
qed

lemma fl_error_bound:
  assumes "\<bar>x\<bar> \<le> b"
  shows "\<bar>fl x - x\<bar> \<le> b / 2 ^ 53"
proof -
  have "\<bar>x\<bar> / 2 ^ 53 \<le> b / 2 ^ 53" using assms by (intro divide_right_mono) simp_all
  with fl_error[of x] show ?thesis by (rule order_trans)
qed

lemma fmul_weight_error:
  assumes "0 \<le> x" "x \<le> 1" "0 \<le> w" "w \<le> 1"
  shows "0 \<le> fmul x (fl w) \<and> fmul x (fl w) \<le> 1 \<and> \<bar>fmul x (fl w) - x * w\<bar> \<le> 2 / 2 ^ 53"
proof -
  have fw: "0 \<le> fl w" "fl w \<le> 1" using assms by (auto intro: fl_nonneg fl_le_one)
  have xw: "0 \<le> x * fl w" "x * fl w \<le> 1"
    using assms fw by (auto intro: mult_le_one)
  then have a: "\<bar>fl (x * fl w) - x * fl w\<bar> \<le> 1 / 2 ^ 53"
    by (intro fl_error_bound) simp
  have "\<bar>fl w - w\<bar> \<le> 1 / 2 ^ 53" using assms by (intro fl_error_bound) simp
  then have "x * \<bar>fl w - w\<bar> \<le> 1 * (1 / 2 ^ 53)"
    using assms by (intro mult_mono) simp_all
  then have b: "\<bar>x * fl w - x * w\<bar> \<le> 1 / 2 ^ 53"
    using assms(1) by (simp add: abs_mult flip: right_diff_distrib)
  have "0 \<le> fmul x (fl w)" "fmul x (fl w) \<le> 1"
    unfolding fmul_def using xw by (auto intro: fl_nonneg fl_le_one)
  moreover have "\<bar>fmul x (fl w) - x * w\<bar> \<le> 2 / 2 ^ 53"
    unfolding fmul_def using a b by linarith
  ultimately show ?thesis by blast
qed

lemma fadd_error:
  assumes "0 \<le> x" "x \<le> b" "0 \<le> y" "y \<le> 1" "fl (b + 1) = b + 1"
  shows "0 \<le> fadd x y \<and> fadd x y \<le> b + 1 \<and> \<bar>fadd x y - (x + y)\<bar> \<le> (b + 1) / 2 ^ 53"
proof -
  have s: "0 \<le> x + y" "x + y \<le> b + 1" using assms by simp_all
  have "fl (x + y) \<le> fl (b + 1)" using s(2) by (rule fl_mono)
  then have "fadd x y \<le> b + 1" unfolding fadd_def assms(5) .
  moreover have "0 \<le> fadd x y" unfolding fadd_def using s(1) by (rule fl_nonneg)
  moreover have "\<bar>fadd x y - (x + y)\<bar> \<le> (b + 1) / 2 ^ 53"
    unfolding fadd_def using s by (intro fl_error_bound) simp
  ultimately show ?thesis by blast
qed

lemma fl_small_ints: "fl (0 + 1) = 0 + 1" "fl (1 + 1) = 1 + 1" "fl (1 + 1 + 1) = 1 + 1 + 1"
  "fl (1 + 1 + 1 + 1) = 1 + 1 + 1 + 1" "fl (1 + 1 + 1 + 1 + 1) = 1 + 1 + 1 + 1 + 1"
  by (simp_all add: fl_eval fl_one split del: if_split)

lemma weighted_sum_error:
  assumes "0 \<le> c \<and> c \<le> 1" "0 \<le> p \<and> p \<le> 1" "0 \<le> l \<and> l \<le> 1"
    "0 \<le> r \<and> r \<le> 1" "0 \<le> s \<and> s \<le> 1"
  shows "\<bar>weighted_sum c p l r s
          - (25 / 100 * c + 30 / 100 * p + 15 / 100 * l + 15 / 100 * r + 15 / 100 * s)\<bar>
         \<le> 1 / 2 ^ 48"
proof -
  define a1 where "a1 = fmul c (fl (25 / 100))"
  define a2 where "a2 = fmul p (fl (30 / 100))"
  define a3 where "a3 = fmul l (fl (15 / 100))"
  define a4 where "a4 = fmul r (fl (15 / 100))"
  define a5 where "a5 = fmul s (fl (15 / 100))"
  define S1 where "S1 = fadd 0 a1"
  define S2 where "S2 = fadd S1 a2"
  define S3 where "S3 = fadd S2 a3"
  define S4 where "S4 = fadd S3 a4"
  define S5 where "S5 = fadd S4 a5"
  have ws: "weighted_sum c p l r s = S5"
    by (simp add: weighted_sum_def float_sum_def S5_def S4_def S3_def S2_def S1_def
        a1_def a2_def a3_def a4_def a5_def)
  have A1: "0 \<le> a1 \<and> a1 \<le> 1 \<and> \<bar>a1 - c * (25 / 100)\<bar> \<le> 2 / 2 ^ 53"
    unfolding a1_def using assms(1) by (intro fmul_weight_error) simp_all
  have A2: "0 \<le> a2 \<and> a2 \<le> 1 \<and> \<bar>a2 - p * (30 / 100)\<bar> \<le> 2 / 2 ^ 53"
    unfolding a2_def using assms(2) by (intro fmul_weight_error) simp_all
  have A3: "0 \<le> a3 \<and> a3 \<le> 1 \<and> \<bar>a3 - l * (15 / 100)\<bar> \<le> 2 / 2 ^ 53"
    unfolding a3_def using assms(3) by (intro fmul_weight_error) simp_all
  have A4: "0 \<le> a4 \<and> a4 \<le> 1 \<and> \<bar>a4 - r * (15 / 100)\<bar> \<le> 2 / 2 ^ 53"
    unfolding a4_def using assms(4) by (intro fmul_weight_error) simp_all
  have A5: "0 \<le> a5 \<and> a5 \<le> 1 \<and> \<bar>a5 - s * (15 / 100)\<bar> \<le> 2 / 2 ^ 53"
    unfolding a5_def using assms(5) by (intro fmul_weight_error) simp_all
  have B1: "0 \<le> S1 \<and> S1 \<le> 0 + 1 \<and> \<bar>S1 - (0 + a1)\<bar> \<le> (0 + 1) / 2 ^ 53"
    unfolding S1_def using A1 by (intro fadd_error fl_small_ints) simp_all
  have B2: "0 \<le> S2 \<and> S2 \<le> 1 + 1 \<and> \<bar>S2 - (S1 + a2)\<bar> \<le> (1 + 1) / 2 ^ 53"
    unfolding S2_def using A2 B1 by (intro fadd_error fl_small_ints) simp_all
  have B3: "0 \<le> S3 \<and> S3 \<le> 1 + 1 + 1 \<and> \<bar>S3 - (S2 + a3)\<bar> \<le> (1 + 1 + 1) / 2 ^ 53"
    unfolding S3_def using A3 B2 by (intro fadd_error fl_small_ints) simp_all
  have B4: "0 \<le> S4 \<and> S4 \<le> 1 + 1 + 1 + 1 \<and> \<bar>S4 - (S3 + a4)\<bar> \<le> (1 + 1 + 1 + 1) / 2 ^ 53"
    unfolding S4_def using A4 B3 by (intro fadd_error fl_small_ints) simp_all
  have B5: "0 \<le> S5 \<and> S5 \<le> 1 + 1 + 1 + 1 + 1
      \<and> \<bar>S5 - (S4 + a5)\<bar> \<le> (1 + 1 + 1 + 1 + 1) / 2 ^ 53"
    unfolding S5_def using A5 B4 by (intro fadd_error fl_small_ints) simp_all
  define u :: rat where "u = 1 / 2 ^ 53"
  have u: "1 / 2 ^ 48 = 32 * u" "2 / 2 ^ 53 = 2 * u" "(0 + 1) / 2 ^ 53 = u" "(1 + 1) / 2 ^ 53 = 2 * u"
    "(1 + 1 + 1) / 2 ^ 53 = 3 * u" "(1 + 1 + 1 + 1) / 2 ^ 53 = 4 * u"
    "(1 + 1 + 1 + 1 + 1) / 2 ^ 53 = 5 * u" "0 \<le> u"
    by (simp_all add: u_def)
  show ?thesis
    unfolding ws u(1) using A1 A2 A3 A4 A5 B1 B2 B3 B4 B5 unfolding u(2-7)
    using u(8) by (simp only: abs_le_iff) linarith
qed

text \<open>
  C7: whenever \<open>calculate_all\<close> returns, the overall score is the sum, taken from the left in
  floating point, of 0.25 * coherence, 0.30 * completeness, 0.15 * length appropriateness,
  0.15 * repetition penalty and 0.15 * structural richness, where the five sub-scores are
  the fields of the result; the five weights add up to 1.0; and the overall score differs
  from the exact weighted sum of the five sub-scores by at most \<open>1 / 2 ^ 48\<close>.
\<close>

theorem overall_is_weighted_sum:
  assumes "calculate_all t p tok = Inr m"
  shows "overall_score m =
           fadd (fadd (fadd (fadd (fadd 0
             (fmul (coherence_score m) (fl (25 / 100))))
             (fmul (completeness_score m) (fl (30 / 100))))
             (fmul (length_appropriateness m) (fl (15 / 100))))
             (fmul (repetition_penalty m) (fl (15 / 100))))
             (fmul (structural_richness m) (fl (15 / 100)))
       \<and> calc_coherence_score t = Inr (coherence_score m)
       \<and> calc_completeness_score t p = Inr (completeness_score m)
       \<and> calc_length_appropriateness t p tok = Inr (length_appropriateness m)
       \<and> calc_repetition_penalty t = Inr (repetition_penalty m)
       \<and> calc_structural_richness t = Inr (structural_richness m)
       \<and> float_sum [fl (25 / 100), fl (30 / 100), fl (15 / 100), fl (15 / 100), fl (15 / 100)] = 1
       \<and> \<bar>overall_score m
            - (25 / 100 * coherence_score m + 30 / 100 * completeness_score m
               + 15 / 100 * length_appropriateness m + 15 / 100 * repetition_penalty m
               + 15 / 100 * structural_richness m)\<bar> \<le> 1 / 2 ^ 48"
proof -
  have w: "float_sum [fl (25 / 100), fl (30 / 100), fl (15 / 100), fl (15 / 100), fl (15 / 100)] = 1"
    by (simp add: float_sum_def fadd_def fl_eval split del: if_split)
  note f = calculate_all_fields[OF assms]
  note b = calculate_all_range[OF assms]
  have o: "overall_score m =
           fadd (fadd (fadd (fadd (fadd 0
             (fmul (coherence_score m) (fl (25 / 100))))
             (fmul (completeness_score m) (fl (30 / 100))))
             (fmul (length_appropriateness m) (fl (15 / 100))))
             (fmul (repetition_penalty m) (fl (15 / 100))))
             (fmul (structural_richness m) (fl (15 / 100)))"
    unfolding f(6) by (simp add: weighted_sum_def float_sum_def)
  have e: "\<bar>overall_score m
            - (25 / 100 * coherence_score m + 30 / 100 * completeness_score m
               + 15 / 100 * length_appropriateness m + 15 / 100 * repetition_penalty m
               + 15 / 100 * structural_richness m)\<bar> \<le> 1 / 2 ^ 48"
    unfolding f(6) using b(1-5) by (rule weighted_sum_error)
  from o f(1-5) w e show ?thesis by blast
qed

theorem overall_is_weighted_sum_witness:
  "calculate_all sample_response sample_prompt (Some 20) =
     Inr \<lparr>coherence_score = 3007203591182859 / 9007199254740992,
          completeness_score = 5692549928996307 / 9007199254740992,
          length_appropriateness = 1,
          repetition_penalty = 1,
          structural_richness = 7926335344172073 / 36028797018963968,
          overall_score = 2729481614161679 / 4503599627370496\<rparr>
   \<and> fadd (fadd (fadd (fadd (fadd 0
        (fmul (3007203591182859 / 9007199254740992) (fl (25 / 100))))
        (fmul (5692549928996307 / 9007199254740992) (fl (30 / 100))))
        (fmul 1 (fl (15 / 100))))
        (fmul 1 (fl (15 / 100))))
        (fmul (7926335344172073 / 36028797018963968) (fl (15 / 100)))
      = 2729481614161679 / 4503599627370496
   \<and> \<bar>2729481614161679 / 4503599627370496
        - (25 / 100 * (3007203591182859 / 9007199254740992)
           + 30 / 100 * (5692549928996307 / 9007199254740992)
           + 15 / 100 * 1 + 15 / 100 * 1
           + 15 / 100 * (7926335344172073 / 36028797018963968))\<bar> \<le> (1 / 2 ^ 48 :: rat)"
  using overall_is_weighted_sum[OF sample_metrics] sample_metrics by simp

text \<open>
  C1 fails on the code: for a non-empty response and the empty prompt, the ideal maximum
  length \<^verbatim>\<open>prompt_length * 8\<close> is 0 and \<^verbatim>\<open>excess / ideal_max\<close> raises
  \<^verbatim>\<open>ZeroDivisionError\<close> (lemma \<open>calculate_all_empty_prompt\<close>); here at the response
  \<^verbatim>\<open>"a"\<close>. For every non-empty prompt the scorer returns (\<open>calculate_all_total\<close>), and
  whenever it returns, the six scores lie in [0, 1] (\<open>calculate_all_range\<close>).
\<close>

theorem scorer_raises_on_empty_prompt:
  "calculate_all ''a'' '''' None = Inl ZeroDivisionError"
  by (rule calculate_all_empty_prompt) simp

end
